theory Spec2Isabelle
  imports Main
begin

section \<open>The supervisor \<open>wrapper.c\<close>: data model\<close>

text \<open>
  The program \<^verbatim>\<open>src/wrapper.c\<close> starts \<^verbatim>\<open>/ATO/runner\<close> as a child, kills it
  when a deadline of \<open>timeout_secs\<close> seconds expires, reaps it and writes one JSON line
  with the exit disposition and the resource usage to a descriptor given on the command
  line.  The model below follows the C text function by function.  Every call into the
  operating system is an \<open>event\<close> appended to the trace of the process, and everything
  the operating system answers is read from an explicit environment record.
\<close>

subsection \<open>Machine integers\<close>

text \<open>
  \<^verbatim>\<open>int\<close> is 32 bits wide and \<^verbatim>\<open>long long\<close> 64 bits wide on the Linux targets the
  program is built for.  Values are kept as mathematical integers and the two's
  complement wrap-around of each arithmetic step is written out.  (ISO C leaves signed
  overflow undefined; the compiled program wraps, and so does the model.)
\<close>

definition wrap32 :: "int \<Rightarrow> int" where
  "wrap32 x = (x + 2147483648) mod 4294967296 - 2147483648"

definition wrap64 :: "int \<Rightarrow> int" where
  "wrap64 x = (x + 9223372036854775808) mod 18446744073709551616 - 9223372036854775808"

text \<open>The implicit conversion of an \<^verbatim>\<open>int\<close> argument to \<^verbatim>\<open>unsigned int\<close>.\<close>

definition to_unsigned :: "int \<Rightarrow> int" where
  "to_unsigned x = x mod 4294967296"

text \<open>
  \<^verbatim>\<open>char\<close> is signed on x86-64 Linux: bytes from 128 on are negative.
\<close>

definition char_val :: "char \<Rightarrow> int" where
  "char_val c = (let n = int (of_char c) in if n < 128 then n else n - 256)"

subsection \<open>Constants of the system headers\<close>

text \<open>
  Signal and error numbers of Linux (\<^verbatim>\<open><signal.h>\<close>, \<^verbatim>\<open><errno.h>\<close>); the source
  only names them.
\<close>

definition SIGHUP :: int where "SIGHUP = 1"
definition SIGINT :: int where "SIGINT = 2"
definition SIGQUIT :: int where "SIGQUIT = 3"
definition SIGKILL :: int where "SIGKILL = 9"
definition SIGUSR1 :: int where "SIGUSR1 = 10"
definition SIGALRM :: int where "SIGALRM = 14"
definition SIGTERM :: int where "SIGTERM = 15"
definition SIGCHLD :: int where "SIGCHLD = 17"
definition SIGTTIN :: int where "SIGTTIN = 21"
definition SIGTTOU :: int where "SIGTTOU = 22"

definition EBADF :: int where "EBADF = 9"
definition ENOSYS :: int where "ENOSYS = 38"
definition EINVAL :: int where "EINVAL = 22"

definition MAX_TIMEOUT_SECS :: int where "MAX_TIMEOUT_SECS = 60"

subsection \<open>\<open>parse_int\<close>\<close>

text \<open>
  \<^verbatim>\<open>int parse_int(char* string)\<close>.  The argument is the text of a NUL-terminated C
  string; \<^verbatim>\<open>string[0]\<close> of the empty string is the terminator 0.  \<^verbatim>\<open>exit(2)\<close> is
  the result \<open>Inl 2\<close>, a returned value \<open>v\<close> is \<open>Inr v\<close>.
\<close>

fun parse_loop :: "string \<Rightarrow> int \<Rightarrow> int + int" where
  "parse_loop [] val = Inr val"
| "parse_loop (c # cs) val =
     (if char_val c < char_val CHR ''0'' \<or> char_val c > char_val CHR ''9'' then Inl 2
      else parse_loop cs (wrap32 (wrap32 (val * 10) + (char_val c - char_val CHR ''0''))))"

definition parse_int :: "string \<Rightarrow> int + int" where
  "parse_int string =
     (if (case string of [] \<Rightarrow> 0 | c # _ \<Rightarrow> char_val c) < char_val CHR ''1'' then Inl 2
      else parse_loop string 0)"

subsection \<open>Signals, wait statuses, events\<close>

definition SIGSTOP :: int where "SIGSTOP = 19"

text \<open>
  What a signal number is bound to: the two kernel dispositions and the three handler
  functions of the source (\<^verbatim>\<open>cleanup\<close>, \<^verbatim>\<open>chld\<close>, \<^verbatim>\<open>handle_usr1\<close>).
\<close>

datatype handler = SIG_DFL | SIG_IGN | H_cleanup | H_chld | H_handle_usr1

text \<open>
  The status word that \<^verbatim>\<open>waitpid\<close> stores, by its POSIX meaning: normal exit with
  an exit code, termination by a signal with or without a core dump, and the two other
  shapes (stopped, continued).  The macros of \<^verbatim>\<open><sys/wait.h>\<close> read it; the value
  macros are only called by the source under their guards.
\<close>

datatype wstatus = WExited int | WSignaled int bool | WStopped int | WContinued

fun WIFEXITED :: "wstatus \<Rightarrow> bool" where
  "WIFEXITED (WExited c) = True"
| "WIFEXITED _ = False"

fun WEXITSTATUS :: "wstatus \<Rightarrow> int" where
  "WEXITSTATUS (WExited c) = c"
| "WEXITSTATUS _ = 0"

fun WIFSIGNALED :: "wstatus \<Rightarrow> bool" where
  "WIFSIGNALED (WSignaled s c) = True"
| "WIFSIGNALED _ = False"

fun WCOREDUMP :: "wstatus \<Rightarrow> bool" where
  "WCOREDUMP (WSignaled s c) = c"
| "WCOREDUMP _ = False"

fun WTERMSIG :: "wstatus \<Rightarrow> int" where
  "WTERMSIG (WSignaled s c) = s"
| "WTERMSIG _ = 0"

record timespec =
  tv_sec :: int
  tv_nsec :: int

record timeval =
  tv_sec_val :: int
  tv_usec :: int

record rusage =
  ru_utime :: timeval
  ru_stime :: timeval
  ru_maxrss :: int
  ru_majflt :: int
  ru_minflt :: int
  ru_inblock :: int
  ru_oublock :: int
  ru_nvcsw :: int
  ru_nivcsw :: int

text \<open>
  The macros \<^verbatim>\<open>TIMESPEC\<close> and \<^verbatim>\<open>TIMEVAL\<close>: nanoseconds as \<^verbatim>\<open>long long\<close>.
\<close>

definition TIMESPEC :: "timespec \<Rightarrow> int" where
  "TIMESPEC ts = wrap64 (wrap64 (tv_sec ts * 1000000000) + tv_nsec ts)"

definition TIMEVAL :: "timeval \<Rightarrow> int" where
  "TIMEVAL tv = wrap64 (wrap64 (tv_sec_val tv * 1000000000) + wrap64 (tv_usec tv * 1000))"

text \<open>Every call into the operating system, in program order.\<close>

datatype event =
    Perror string
  | Fcntl_getfd int
  | Setpgid int int
  | Sigaction int handler
  | Signal int handler
  | Sig_unblock "int list"
  | Sig_block "int list"
  | Clock_gettime
  | Fork int
  | Close int
  | Execlp string
  | Timer_create
  | Timer_settime int
  | Timer_delete
  | Alarm int
  | Kill int int
  | Waitpid int int
  | Sigsuspend
  | Getrusage
  | Dprintf int string
  | Dprintf_failed int

text \<open>
  How a process ends: \<open>Return n\<close> is \<^verbatim>\<open>return n\<close> from \<^verbatim>\<open>main\<close>; \<open>Exit n\<close> a
  call of \<^verbatim>\<open>exit(n)\<close> or \<^verbatim>\<open>_exit(n)\<close>; \<open>Abort\<close> a failed \<^verbatim>\<open>assert\<close>;
  \<open>Exec path\<close> a successful \<^verbatim>\<open>execlp\<close>; \<open>Default_action sig\<close> the delivery of a
  signal whose disposition is \<^verbatim>\<open>SIG_DFL\<close>; \<open>Blocked\<close> a \<^verbatim>\<open>sigsuspend\<close> that never
  returns because no signal arrives any more.  The exit status that the parent of the
  process sees is the low byte of \<open>n\<close>.
\<close>

datatype outcome = Return int | Exit int | Abort | Exec string | Default_action int | Blocked

fun exit_status :: "outcome \<Rightarrow> int option" where
  "exit_status (Return n) = Some (n mod 256)"
| "exit_status (Exit n) = Some (n mod 256)"
| "exit_status _ = None"

datatype child_state = No_child | Running | Zombie wstatus | Reaped

text \<open>
  What can happen to the supervisor from outside at a point of its run: a signal (with
  the integer payload of \<^verbatim>\<open>sigqueue\<close>), or the child terminating on its own.
\<close>

datatype arrival = Sig int int | Child_exits wstatus

text \<open>
  One pass of the reap loop: \<open>gap\<close> arrives between \<^verbatim>\<open>waitpid\<close> and
  \<^verbatim>\<open>sigsuspend\<close>, \<open>susp\<close> while the process is suspended.
\<close>

record round =
  gap :: "arrival list"
  susp :: "arrival list"

text \<open>
  The process: the six \<^verbatim>\<open>static\<close> variables of the source, and the kernel's view
  of it (dispositions, signal mask, pending signals, the child), with the trace.
  \<open>handled\<close> counts handler invocations: \<^verbatim>\<open>sigsuspend\<close> returns once one has run.
\<close>

record proc =
  timed_out :: int
  term_signal :: int
  timeout_secs :: int
  monitored_pid :: int
  foreground :: bool
  preserve_status :: bool
  disposition :: "int \<Rightarrow> handler"
  blocked :: "int set"
  pending :: "(int \<times> int) list"
  handled :: nat
  child :: child_state
  trace :: "event list"

text \<open>The answers of the operating system and the arrivals of one run.\<close>

record env =
  inherited_mask :: "int set"
  fd_open :: "int \<Rightarrow> bool"
  perror_errno :: int
  clock_start :: "timespec option"
  fork_result :: int
  exec_ok :: bool
  sigprocmask_ok :: bool
  uninit_set :: "int set"
  uninit_status :: wstatus
  timer_create_errno :: int
  timer_settime_errno :: int
  child_reaction :: "int \<Rightarrow> wstatus option"
  waitpid_error :: bool
  before_fork :: "arrival list"
  before_block :: "arrival list"
  rounds :: "round list"
  after_reap :: "arrival list"
  clock_end :: timespec
  getrusage_result :: "rusage option"
  dprintf_ok :: "nat \<Rightarrow> bool"

type_synonym step = "outcome option \<times> proc"

text \<open>Sequencing: the next statement runs unless the process has ended.\<close>

definition and_then :: "step \<Rightarrow> (proc \<Rightarrow> step) \<Rightarrow> step" where
  "and_then r f = (case r of (Some out, p) \<Rightarrow> (Some out, p) | (None, p) \<Rightarrow> f p)"

definition emit :: "event \<Rightarrow> proc \<Rightarrow> proc" where
  "emit e p = p\<lparr>trace := trace p @ [e]\<rparr>"

definition perror :: "string \<Rightarrow> proc \<Rightarrow> proc" where
  "perror s p = emit (Perror s) p"

subsection \<open>System calls that act on the process or on the child\<close>

text \<open>
  \<^verbatim>\<open>sigaction\<close> and \<^verbatim>\<open>signal\<close>: the kernel refuses a handler for \<^verbatim>\<open>SIGKILL\<close> and
  \<^verbatim>\<open>SIGSTOP\<close> and for numbers outside 1..64, and the C library refuses the two
  real-time signals 32 and 33 that it keeps for its threads (result -1, nothing
  changed).
\<close>

definition catchable :: "int \<Rightarrow> bool" where
  "catchable sig =
     (1 \<le> sig \<and> sig \<le> 64 \<and> sig \<noteq> SIGKILL \<and> sig \<noteq> SIGSTOP \<and> sig \<noteq> 32 \<and> sig \<noteq> 33)"

definition sigaction :: "int \<Rightarrow> handler \<Rightarrow> proc \<Rightarrow> int \<times> proc" where
  "sigaction sig h p =
     (if catchable sig
      then (0, emit (Sigaction sig h) (p\<lparr>disposition := (disposition p)(sig := h)\<rparr>))
      else (-1, emit (Sigaction sig h) p))"

definition signal :: "int \<Rightarrow> handler \<Rightarrow> proc \<Rightarrow> proc" where
  "signal sig h p =
     (if catchable sig
      then emit (Signal sig h) (p\<lparr>disposition := (disposition p)(sig := h)\<rparr>)
      else emit (Signal sig h) p)"

text \<open>
  \<^verbatim>\<open>kill(pid, sig)\<close>.  The only process the model follows is the forked child, whose
  pid is \<open>fork_result\<close>.  While it runs, \<^verbatim>\<open>SIGKILL\<close> terminates it (it cannot be
  caught), any other valid signal does what \<open>child_reaction\<close> says, and signal 0 or an
  invalid number does nothing.  A child that terminates raises \<^verbatim>\<open>SIGCHLD\<close> for the
  supervisor.
\<close>

definition child_after_signal :: "env \<Rightarrow> int \<Rightarrow> wstatus option" where
  "child_after_signal E sig =
     (if sig = SIGKILL then Some (WSignaled SIGKILL False)
      else if 1 \<le> sig \<and> sig \<le> 64 then child_reaction E sig
      else None)"

definition kill :: "env \<Rightarrow> int \<Rightarrow> int \<Rightarrow> proc \<Rightarrow> proc" where
  "kill E pid sig p =
     (let p1 = emit (Kill pid sig) p
      in if pid = fork_result E \<and> child p1 = Running
         then (case child_after_signal E sig of
                 None \<Rightarrow> p1
               | Some st \<Rightarrow> p1\<lparr>child := Zombie st, pending := pending p1 @ [(SIGCHLD, 0)]\<rparr>)
         else p1)"

subsection \<open>The handlers\<close>

text \<open>\<^verbatim>\<open>send_sig\<close>: send \<open>sig\<close>, ignoring it first when it goes to the own group.\<close>

definition send_sig :: "env \<Rightarrow> int \<Rightarrow> int \<Rightarrow> proc \<Rightarrow> proc" where
  "send_sig E whr sig p = kill E whr sig (if whr = 0 then signal sig SIG_IGN p else p)"

definition chld :: "int \<Rightarrow> proc \<Rightarrow> step" where
  "chld sig p = (None, p)"

text \<open>
  \<^verbatim>\<open>cleanup\<close>.  \<^verbatim>\<open>_exit(128 + sig)\<close> ends the process; signal numbers are at most
  64, so the sum stays far from the range of \<^verbatim>\<open>int\<close>.
\<close>

definition cleanup :: "env \<Rightarrow> int \<Rightarrow> proc \<Rightarrow> step" where
  "cleanup E sig p =
     (let p1 = (if sig = SIGALRM then p\<lparr>timed_out := 1\<rparr> else p);
          sig1 = (if sig = SIGALRM then term_signal p else sig)
      in if monitored_pid p1 \<noteq> 0
         then (None, send_sig E (monitored_pid p1) sig1 p1)
         else (Some (Exit (128 + sig1)), p1))"

text \<open>\<^verbatim>\<open>handle_usr1\<close>; \<open>payload\<close> is \<^verbatim>\<open>info->si_value.sival_int\<close>.\<close>

definition handle_usr1 :: "env \<Rightarrow> int \<Rightarrow> int \<Rightarrow> proc \<Rightarrow> step" where
  "handle_usr1 E sig payload p =
     (if sig = SIGUSR1 then (None, kill E (monitored_pid p) payload p)
      else (Some Abort, p))"

subsection \<open>Delivery of signals\<close>

text \<open>
  The kernel's side of a signal: a blocked signal becomes pending, an unblocked one runs
  what it is bound to.  The default action of \<^verbatim>\<open>SIGCHLD\<close> is to ignore it; every
  other default action ends the run of the model.
\<close>

definition run_handler :: "env \<Rightarrow> int \<Rightarrow> int \<Rightarrow> proc \<Rightarrow> step" where
  "run_handler E sig payload p =
     (case disposition p sig of
        SIG_DFL \<Rightarrow> (if sig = SIGCHLD then (None, p) else (Some (Default_action sig), p))
      | SIG_IGN \<Rightarrow> (None, p)
      | H_cleanup \<Rightarrow> cleanup E sig (p\<lparr>handled := Suc (handled p)\<rparr>)
      | H_chld \<Rightarrow> chld sig (p\<lparr>handled := Suc (handled p)\<rparr>)
      | H_handle_usr1 \<Rightarrow> handle_usr1 E sig payload (p\<lparr>handled := Suc (handled p)\<rparr>))"

definition deliver :: "env \<Rightarrow> int \<times> int \<Rightarrow> proc \<Rightarrow> step" where
  "deliver E s p =
     (if fst s \<in> blocked p then (None, p\<lparr>pending := pending p @ [s]\<rparr>)
      else run_handler E (fst s) (snd s) p)"

text \<open>Pending signals that are no longer blocked are delivered, in order.\<close>

fun flush_list :: "env \<Rightarrow> (int \<times> int) list \<Rightarrow> proc \<Rightarrow> step" where
  "flush_list E [] p = (None, p)"
| "flush_list E (s # ss) p = and_then (deliver E s p) (flush_list E ss)"

definition flush :: "env \<Rightarrow> proc \<Rightarrow> step" where
  "flush E p = flush_list E (pending p) (p\<lparr>pending := []\<rparr>)"

definition arrive :: "env \<Rightarrow> arrival \<Rightarrow> proc \<Rightarrow> step" where
  "arrive E a p =
     (case a of
        Sig sig payload \<Rightarrow> deliver E (sig, payload) p
      | Child_exits st \<Rightarrow>
          (if child p = Running then deliver E (SIGCHLD, 0) (p\<lparr>child := Zombie st\<rparr>)
           else (None, p)))"

fun arrive_all :: "env \<Rightarrow> arrival list \<Rightarrow> proc \<Rightarrow> step" where
  "arrive_all E [] p = (None, p)"
| "arrive_all E (a # as) p = and_then (arrive E a p) (arrive_all E as)"

subsection \<open>Signal mask and handler installation\<close>

text \<open>
  \<^verbatim>\<open>sigprocmask\<close> cannot change the mask bits of \<^verbatim>\<open>SIGKILL\<close> and \<^verbatim>\<open>SIGSTOP\<close>.
  When it fails the source only warns; the set it was to store then keeps whatever the
  stack held (\<open>uninit_set\<close>).  Unblocking delivers what was pending.
\<close>

definition unblock_signal :: "env \<Rightarrow> int \<Rightarrow> proc \<Rightarrow> step" where
  "unblock_signal E sig p =
     (if sigprocmask_ok E
      then flush E (emit (Sig_unblock [sig]) (p\<lparr>blocked := blocked p - {sig}\<rparr>))
      else (None, perror ''warning: sigprocmask'' (emit (Sig_unblock [sig]) p)))"

definition install_sigchld :: "env \<Rightarrow> proc \<Rightarrow> step" where
  "install_sigchld E p = unblock_signal E SIGCHLD (snd (sigaction SIGCHLD H_chld p))"

definition install_cleanup :: "int \<Rightarrow> proc \<Rightarrow> proc" where
  "install_cleanup sigterm p =
     snd (sigaction sigterm H_cleanup
    (snd (sigaction SIGTERM H_cleanup
    (snd (sigaction SIGHUP H_cleanup
    (snd (sigaction SIGQUIT H_cleanup
    (snd (sigaction SIGINT H_cleanup
    (snd (sigaction SIGALRM H_cleanup p)))))))))))"

definition block_cleanup_and_chld :: "env \<Rightarrow> int \<Rightarrow> proc \<Rightarrow> int set \<times> proc" where
  "block_cleanup_and_chld E sigterm p =
     (let block_set = [SIGALRM, SIGINT, SIGQUIT, SIGHUP, SIGTERM, sigterm, SIGCHLD]
      in if sigprocmask_ok E
         then (blocked p,
               emit (Sig_block block_set)
                 (p\<lparr>blocked := blocked p \<union> (set block_set - {SIGKILL, SIGSTOP})\<rparr>))
         else (uninit_set E, perror ''warning: sigprocmask'' (emit (Sig_block block_set) p)))"

subsection \<open>The deadline timer\<close>

definition alarm :: "int \<Rightarrow> proc \<Rightarrow> proc" where
  "alarm seconds p = emit (Alarm (to_unsigned seconds)) p"

text \<open>
  \<^verbatim>\<open>settimeout\<close>.  \<open>timer_create_errno\<close> and \<open>timer_settime_errno\<close> are 0 when the call
  succeeds and the value of \<^verbatim>\<open>errno\<close> when it fails.
\<close>

definition settimeout :: "env \<Rightarrow> bool \<Rightarrow> proc \<Rightarrow> proc" where
  "settimeout E warn p =
     (let p1 = emit Timer_create p
      in if timer_create_errno E = 0
         then (let p2 = emit (Timer_settime (timeout_secs p)) p1
               in if timer_settime_errno E = 0 then p2
                  else alarm (timeout_secs p)
                         (emit Timer_delete
                            (if warn then perror ''warning: timer_settime'' p2 else p2)))
         else alarm (timeout_secs p)
                (if warn \<and> timer_create_errno E \<noteq> ENOSYS
                 then perror ''warning: timer_create'' p1 else p1))"

subsection \<open>Waiting for the child\<close>

text \<open>
  \<^verbatim>\<open>waitpid(pid, &status, WNOHANG)\<close>: 0 while the child runs; its pid, with the status
  stored, when it has terminated (this reaps it); -1 when the call fails or there is
  no such child.  \<open>status\<close> is passed through unchanged when nothing is stored.
\<close>

definition waitpid :: "env \<Rightarrow> int \<Rightarrow> wstatus \<Rightarrow> proc \<Rightarrow> int \<times> wstatus \<times> proc" where
  "waitpid E pid status p =
     (if waitpid_error E \<or> pid \<noteq> fork_result E then (-1, status, emit (Waitpid pid (-1)) p)
      else (case child p of
              Running \<Rightarrow> (0, status, emit (Waitpid pid 0) p)
            | Zombie st \<Rightarrow> (pid, st, emit (Waitpid pid pid) (p\<lparr>child := Reaped\<rparr>))
            | _ \<Rightarrow> (-1, status, emit (Waitpid pid (-1)) p)))"

text \<open>
  \<^verbatim>\<open>sigsuspend(sigmask)\<close>: the mask is replaced, pending signals that are now unblocked
  are delivered, then arrivals are taken until a handler has run; the old mask is
  restored and what arrives later in the round meets the restored mask.
\<close>

fun arrive_until_handled :: "env \<Rightarrow> nat \<Rightarrow> arrival list \<Rightarrow> proc \<Rightarrow> step \<times> arrival list" where
  "arrive_until_handled E n0 [] p = ((None, p), [])"
| "arrive_until_handled E n0 (a # as) p =
     (if n0 < handled p then ((None, p), a # as)
      else (case arrive E a p of
              (Some out, p1) \<Rightarrow> ((Some out, p1), as)
            | (None, p1) \<Rightarrow> arrive_until_handled E n0 as p1))"

definition sigsuspend :: "env \<Rightarrow> int set \<Rightarrow> arrival list \<Rightarrow> proc \<Rightarrow> step" where
  "sigsuspend E sigmask arrivals p =
     (case flush E (emit Sigsuspend (p\<lparr>blocked := sigmask\<rparr>)) of
        (Some out, p1) \<Rightarrow> (Some out, p1)
      | (None, p1) \<Rightarrow>
          (case arrive_until_handled E (handled p) arrivals p1 of
             ((Some out, p2), rest) \<Rightarrow> (Some out, p2)
           | ((None, p2), rest) \<Rightarrow>
               (if handled p < handled p2 then arrive_all E rest (p2\<lparr>blocked := blocked p\<rparr>)
                else (Some Blocked, p2))))"

text \<open>
  The reap loop
  \<^verbatim>\<open>while ((wait_result = waitpid(monitored_pid, &status, WNOHANG)) == 0) sigsuspend(&cleanup_set);\<close>
  over the rounds of the environment.  When the rounds are used up and the child still
  runs, nothing arrives any more and the process stays suspended.
\<close>

fun reap_loop ::
  "env \<Rightarrow> int set \<Rightarrow> round list \<Rightarrow> wstatus \<Rightarrow> proc \<Rightarrow> outcome option \<times> (int \<times> wstatus) \<times> proc" where
  "reap_loop E cleanup_set [] status p =
     (case waitpid E (monitored_pid p) status p of
        (wait_result, status1, p1) \<Rightarrow>
          if wait_result = 0 then (Some Blocked, (wait_result, status1), emit Sigsuspend p1)
          else (None, (wait_result, status1), p1))"
| "reap_loop E cleanup_set (r # rs) status p =
     (case waitpid E (monitored_pid p) status p of
        (wait_result, status1, p1) \<Rightarrow>
          if wait_result = 0
          then (case and_then (arrive_all E (gap r) p1) (sigsuspend E cleanup_set (susp r)) of
                  (Some out, p2) \<Rightarrow> (Some out, (wait_result, status1), p2)
                | (None, p2) \<Rightarrow> reap_loop E cleanup_set rs status1 p2)
          else (None, (wait_result, status1), p1))"

subsection \<open>The output record\<close>

text \<open>\<^verbatim>\<open>printf\<close>'s \<^verbatim>\<open>%d\<close>, \<^verbatim>\<open>%ld\<close> and \<^verbatim>\<open>%lld\<close>: decimal digits with a minus sign.\<close>

definition digit_char :: "nat \<Rightarrow> char" where
  "digit_char d = ''0123456789'' ! d"

fun digits :: "nat \<Rightarrow> string" where
  "digits n = (if n < 10 then [digit_char n] else digits (n div 10) @ [digit_char (n mod 10)])"

definition show_int :: "int \<Rightarrow> string" where
  "show_int i = (if i < 0 then CHR ''-'' # digits (nat (- i)) else digits (nat i))"

definition quoted :: "string \<Rightarrow> string" where
  "quoted s = [CHR 0x22] @ s @ [CHR 0x22]"

text \<open>
  The status classification of \<^verbatim>\<open>main\<close> after the loop: the pair of \<^verbatim>\<open>status_type\<close>
  and the final value of \<^verbatim>\<open>status\<close>.
\<close>

definition classify :: "int \<Rightarrow> wstatus \<Rightarrow> string \<times> int" where
  "classify wait_result status =
     (if wait_result < 0 then (''unknown'', -1)
      else if WIFEXITED status then (''exited'', WEXITSTATUS status)
      else if WIFSIGNALED status
           then (if WCOREDUMP status then ''core_dump'' else ''killed'', WTERMSIG status)
      else (''unknown'', -1))"

text \<open>What the fifteen \<^verbatim>\<open>DPRINTF\<close> calls format, in order.\<close>

definition record_chunks :: "int \<Rightarrow> string \<Rightarrow> int \<Rightarrow> rusage \<Rightarrow> int \<Rightarrow> string list" where
  "record_chunks timed_out_flag status_type status ru real =
     [''{'',
      quoted ''timed_out'' @ '':'' @ (if timed_out_flag \<noteq> 0 then ''true'' else ''false'') @ '','',
      quoted ''status_type'' @ '':'' @ quoted status_type @ '','',
      quoted ''status_value'' @ '':'' @ show_int status @ '','',
      quoted ''user'' @ '':'' @ show_int (TIMEVAL (ru_utime ru)) @ '','',
      quoted ''kernel'' @ '':'' @ show_int (TIMEVAL (ru_stime ru)) @ '','',
      quoted ''real'' @ '':'' @ show_int real @ '','',
      quoted ''max_mem'' @ '':'' @ show_int (ru_maxrss ru) @ '','',
      quoted ''major_page_faults'' @ '':'' @ show_int (ru_majflt ru) @ '','',
      quoted ''minor_page_faults'' @ '':'' @ show_int (ru_minflt ru) @ '','',
      quoted ''input_ops'' @ '':'' @ show_int (ru_inblock ru) @ '','',
      quoted ''output_ops'' @ '':'' @ show_int (ru_oublock ru) @ '','',
      quoted ''waits'' @ '':'' @ show_int (ru_nvcsw ru) @ '','',
      quoted ''preemptions'' @ '':'' @ show_int (ru_nivcsw ru),
      ''}'' @ [CHR 0x0A]]"

text \<open>
  The \<^verbatim>\<open>DPRINTF\<close> macro, call number \<open>i\<close>: a failed \<^verbatim>\<open>dprintf\<close> is reported and
  \<^verbatim>\<open>main\<close> returns 1; after the last call \<^verbatim>\<open>main\<close> returns 0.
\<close>

fun dprintf_all :: "env \<Rightarrow> int \<Rightarrow> nat \<Rightarrow> string list \<Rightarrow> proc \<Rightarrow> outcome \<times> proc" where
  "dprintf_all E fd i [] p = (Return 0, p)"
| "dprintf_all E fd i (s # ss) p =
     (if dprintf_ok E i then dprintf_all E fd (Suc i) ss (emit (Dprintf fd s) p)
      else (Return 1, perror ''dprintf'' (emit (Dprintf_failed fd) p)))"

text \<open>
  \<^verbatim>\<open>main\<close> from the second \<^verbatim>\<open>clock_gettime\<close> to the end.  The result of that call is
  not looked at; \<open>clock_end\<close> is what \<^verbatim>\<open>end_time\<close> holds after it.
\<close>

definition report :: "env \<Rightarrow> int \<Rightarrow> timespec \<Rightarrow> int \<Rightarrow> wstatus \<Rightarrow> proc \<Rightarrow> outcome \<times> proc" where
  "report E fd start_time wait_result status p =
     (let p1 = emit Clock_gettime p;
          end_time = clock_end E;
          p2 = (if wait_result < 0 then perror ''error waiting for command'' p1 else p1);
          p3 = emit Getrusage p2
      in case getrusage_result E of
           None \<Rightarrow> (Return 1, perror ''getrusage'' p3)
         | Some ru \<Rightarrow>
             dprintf_all E fd 0
               (record_chunks (timed_out p3) (fst (classify wait_result status))
                  (snd (classify wait_result status)) ru
                  (wrap64 (TIMESPEC end_time - TIMESPEC start_time)))
               p3)"

subsection \<open>\<open>main\<close>\<close>

definition init_proc :: "env \<Rightarrow> proc" where
  "init_proc E =
     \<lparr>timed_out = 0, term_signal = SIGKILL, timeout_secs = MAX_TIMEOUT_SECS,
      monitored_pid = 0, foreground = False, preserve_status = False,
      disposition = (\<lambda>sig. SIG_DFL), blocked = inherited_mask E, pending = [],
      handled = 0, child = No_child, trace = []\<rparr>"

text \<open>The branch \<^verbatim>\<open>monitored_pid == 0\<close>: the child.\<close>

definition child_side :: "env \<Rightarrow> int \<Rightarrow> proc \<Rightarrow> outcome \<times> proc" where
  "child_side E fd p =
     (let p1 = emit (Execlp ''/ATO/runner'')
                 (emit (Close fd) (signal SIGTTOU SIG_DFL (signal SIGTTIN SIG_DFL p)))
      in if exec_ok E then (Exec ''/ATO/runner'', p1)
         else (Return 1, perror ''execlp'' p1))"

text \<open>The last branch: the parent, up to the block of the cleanup signals.\<close>

definition parent_setup :: "env \<Rightarrow> proc \<Rightarrow> step" where
  "parent_setup E p =
     and_then (unblock_signal E SIGALRM p)
       (\<lambda>p. let r = sigaction SIGUSR1 H_handle_usr1 p;
                p1 = (if fst r < 0 then perror ''sigaction'' (snd r) else snd r)
            in arrive_all E (before_block E) (settimeout E True p1))"

definition parent_side :: "env \<Rightarrow> int \<Rightarrow> timespec \<Rightarrow> proc \<Rightarrow> outcome \<times> proc" where
  "parent_side E fd start_time p =
     (case parent_setup E p of
        (Some out, p1) \<Rightarrow> (out, p1)
      | (None, p1) \<Rightarrow>
          (case block_cleanup_and_chld E (term_signal p1) p1 of
             (cleanup_set, p2) \<Rightarrow>
               (case reap_loop E cleanup_set (rounds E) (uninit_status E) p2 of
                  (Some out, ws, p3) \<Rightarrow> (out, p3)
                | (None, ws, p3) \<Rightarrow>
                    (case arrive_all E (after_reap E) p3 of
                       (Some out, p4) \<Rightarrow> (out, p4)
                     | (None, p4) \<Rightarrow> report E fd start_time (fst ws) (snd ws) p4))))"

text \<open>
  \<^verbatim>\<open>main\<close> after the validation: the process group and the handlers, before the
  clock is read.  \<open>before_fork\<close> is what arrives once the handlers are installed.
\<close>

definition startup :: "env \<Rightarrow> proc \<Rightarrow> step" where
  "startup E p =
     (let p1 = p\<lparr>preserve_status := True\<rparr>;
          p2 = (if \<not> foreground p1 then emit (Setpgid 0 0) p1 else p1);
          p3 = install_cleanup (term_signal p2) p2;
          p4 = signal SIGTTOU SIG_IGN (signal SIGTTIN SIG_IGN p3)
      in and_then (install_sigchld E p4) (arrive_all E (before_fork E)))"

text \<open>\<^verbatim>\<open>main\<close> from there: the start time, \<^verbatim>\<open>fork\<close> and its three branches.\<close>

definition supervise :: "env \<Rightarrow> int \<Rightarrow> proc \<Rightarrow> outcome \<times> proc" where
  "supervise E fd p =
     (case startup E p of
        (Some out, p5) \<Rightarrow> (out, p5)
      | (None, p5) \<Rightarrow>
          (case clock_start E of
             None \<Rightarrow> (Return 1, perror ''clock_gettime'' (emit Clock_gettime p5))
           | Some start_time \<Rightarrow>
               (let p6 = (emit (Fork (fork_result E)) (emit Clock_gettime p5))
                           \<lparr>monitored_pid := fork_result E\<rparr>
                in if monitored_pid p6 = -1
                   then (Return 2, perror ''fork system call failed'' p6)
                   else if monitored_pid p6 = 0 then child_side E fd p6
                   else parent_side E fd start_time (p6\<lparr>child := Running\<rparr>))))"

text \<open>
  \<^verbatim>\<open>main\<close>; \<open>argv\<close> holds \<^verbatim>\<open>argc\<close> strings.  \<^verbatim>\<open>fcntl(fd, F_GETFD)\<close> sets \<^verbatim>\<open>errno\<close>
  to \<^verbatim>\<open>EBADF\<close> exactly when \<open>fd\<close> is not an open descriptor.  The source then calls
  \<^verbatim>\<open>perror\<close> and returns \<^verbatim>\<open>errno\<close> as it is after that call: \<open>perror_errno\<close> is 0
  when \<^verbatim>\<open>perror\<close> leaves \<^verbatim>\<open>errno\<close> alone, and the value a call inside it set when one
  failed (no library function sets \<^verbatim>\<open>errno\<close> to 0).
\<close>

definition main :: "env \<Rightarrow> string list \<Rightarrow> outcome \<times> proc" where
  "main E argv =
     (let p0 = init_proc E
      in if length argv \<noteq> 3 then (Return 2, p0)
         else (case parse_int (argv ! 1) of
                 Inl e \<Rightarrow> (Exit e, p0)
               | Inr fd \<Rightarrow>
                   (case parse_int (argv ! 2) of
                      Inl e \<Rightarrow> (Exit e, p0)
                    | Inr t \<Rightarrow>
                        (let p1 = p0\<lparr>timeout_secs := t\<rparr>
                         in if timeout_secs p1 < 1 \<or> timeout_secs p1 > MAX_TIMEOUT_SECS
                            then (Return 2, p1)
                            else (let p2 = emit (Fcntl_getfd fd) p1;
                                      errno = (if fd_open E fd then 0 else EBADF)
                                  in if errno \<noteq> 0
                                     then (let p3 = perror ''wrapper'' p2;
                                               errno1 = (if perror_errno E = 0 then errno
                                                         else perror_errno E)
                                           in (Return errno1, p3))
                                     else supervise E fd p2)))))"

section \<open>Observations on a run\<close>

text \<open>The bytes that the \<^verbatim>\<open>dprintf\<close> calls of a trace wrote to a descriptor.\<close>

definition fd_output :: "int \<Rightarrow> event list \<Rightarrow> string" where
  "fd_output fd tr =
     concat (map (\<lambda>e. case e of Dprintf d s \<Rightarrow> (if d = fd then s else []) | _ \<Rightarrow> []) tr)"

text \<open>Whether \<^verbatim>\<open>fork\<close> or \<^verbatim>\<open>dprintf\<close> was called at all.\<close>

fun is_fork :: "event \<Rightarrow> bool" where
  "is_fork (Fork r) = True"
| "is_fork _ = False"

fun is_dprintf :: "event \<Rightarrow> bool" where
  "is_dprintf (Dprintf d s) = True"
| "is_dprintf (Dprintf_failed d) = True"
| "is_dprintf _ = False"

text \<open>
  Events that neither write to a descriptor, nor fork, nor install a handler with
  \<^verbatim>\<open>sigaction\<close>: all that signal handlers, the mask calls, the timer and the reap
  loop can add to a trace.
\<close>

fun quiet :: "event \<Rightarrow> bool" where
  "quiet (Dprintf d s) = False"
| "quiet (Dprintf_failed d) = False"
| "quiet (Sigaction s h) = False"
| "quiet (Fork r) = False"
| "quiet _ = True"

definition quiet_ext :: "proc \<Rightarrow> proc \<Rightarrow> bool" where
  "quiet_ext p p' =
     (monitored_pid p' = monitored_pid p \<and> term_signal p' = term_signal p \<and>
      (\<exists>evs. trace p' = trace p @ evs \<and> list_all quiet evs))"

text \<open>The signals sent and the children reaped, in program order.\<close>

fun kill_or_reap :: "event \<Rightarrow> bool" where
  "kill_or_reap (Kill pid sig) = True"
| "kill_or_reap (Waitpid pid r) = (0 < r)"
| "kill_or_reap _ = False"

text \<open>
  The record as the specification words it: one line, an object of named fields in a
  fixed order, closed by a newline.
\<close>

fun json_fields :: "(string \<times> string) list \<Rightarrow> string" where
  "json_fields [] = []"
| "json_fields [kv] = quoted (fst kv) @ '':'' @ snd kv"
| "json_fields (kv # kv' # rest) =
     quoted (fst kv) @ '':'' @ snd kv @ '','' @ json_fields (kv' # rest)"

definition json_line :: "(string \<times> string) list \<Rightarrow> string" where
  "json_line kvs = ''{'' @ json_fields kvs @ ''}'' @ [CHR 0x0A]"

definition is_digit :: "char \<Rightarrow> bool" where
  "is_digit c = (char_val CHR ''0'' \<le> char_val c \<and> char_val c \<le> char_val CHR ''9'')"

text \<open>What the specification calls a numeric argument: a non-empty string of digits.\<close>

definition numeric :: "string \<Rightarrow> bool" where
  "numeric s = (s \<noteq> [] \<and> list_all is_digit s)"

text \<open>
  A run that ends with exit status \<open>n\<close> without having called \<^verbatim>\<open>fork\<close> or
  \<^verbatim>\<open>dprintf\<close>.
\<close>

definition rejected_with :: "int \<Rightarrow> outcome \<times> proc \<Rightarrow> bool" where
  "rejected_with n r =
     (exit_status (fst r) = Some n \<and> \<not> list_ex is_fork (trace (snd r)) \<and>
      \<not> list_ex is_dprintf (trace (snd r)))"

text \<open>The events that a step added to the trace.\<close>

definition new_events :: "proc \<Rightarrow> proc \<Rightarrow> event list" where
  "new_events p p' = drop (length (trace p)) (trace p')"

text \<open>
  The fields of the record as the specification lists them, with the values the source
  formats: times in nanoseconds, \<open>real\<close> the difference of the two clock readings.
\<close>

definition record_fields :: "int \<Rightarrow> string \<Rightarrow> int \<Rightarrow> rusage \<Rightarrow> int \<Rightarrow> (string \<times> string) list" where
  "record_fields timed_out_flag status_type status_value ru real =
     [(''timed_out'', if timed_out_flag \<noteq> 0 then ''true'' else ''false''),
      (''status_type'', quoted status_type),
      (''status_value'', show_int status_value),
      (''user'', show_int (TIMEVAL (ru_utime ru))),
      (''kernel'', show_int (TIMEVAL (ru_stime ru))),
      (''real'', show_int real),
      (''max_mem'', show_int (ru_maxrss ru)),
      (''major_page_faults'', show_int (ru_majflt ru)),
      (''minor_page_faults'', show_int (ru_minflt ru)),
      (''input_ops'', show_int (ru_inblock ru)),
      (''output_ops'', show_int (ru_oublock ru)),
      (''waits'', show_int (ru_nvcsw ru)),
      (''preemptions'', show_int (ru_nivcsw ru))]"

text \<open>
  Decimal notation as the specification means it for the integer fields: an optional
  minus sign and then digits without a leading zero, whose value is the number.
\<close>

definition digit_value :: "char \<Rightarrow> nat" where
  "digit_value c = nat (char_val c - char_val CHR ''0'')"

definition decimal_value :: "string \<Rightarrow> nat" where
  "decimal_value s = foldl (\<lambda>v c. 10 * v + digit_value c) 0 s"

definition canonical_digits :: "string \<Rightarrow> bool" where
  "canonical_digits s = (s \<noteq> [] \<and> list_all is_digit s \<and> (hd s = CHR ''0'' \<longrightarrow> length s = 1))"

definition decimal_of :: "int \<Rightarrow> string \<Rightarrow> bool" where
  "decimal_of i s =
     (if i < 0
      then s \<noteq> [] \<and> hd s = CHR ''-'' \<and> canonical_digits (tl s) \<and> int (decimal_value (tl s)) = - i
      else canonical_digits s \<and> int (decimal_value s) = i)"

text \<open>
  Relations between the state before and after a step, for the proofs: what was added to
  the trace satisfies a predicate, and \<open>monitored_pid\<close> is unchanged.  A \<open>quiet_step\<close>
  moreover never ends the process by a return from \<^verbatim>\<open>main\<close>.
\<close>

fun is_usr1_install :: "event \<Rightarrow> bool" where
  "is_usr1_install (Sigaction s h) = (s = SIGUSR1)"
| "is_usr1_install _ = False"

definition adds_only :: "(event \<Rightarrow> bool) \<Rightarrow> proc \<Rightarrow> proc \<Rightarrow> bool" where
  "adds_only ok p q =
     (monitored_pid q = monitored_pid p \<and> (\<exists>evs. trace q = trace p @ evs \<and> list_all ok evs))"

definition plain :: "event \<Rightarrow> bool" where
  "plain e = (\<not> is_dprintf e \<and> \<not> is_usr1_install e)"

definition quiet_step :: "proc \<Rightarrow> step \<Rightarrow> bool" where
  "quiet_step p r = (quiet_ext p (snd r) \<and> (\<forall>n. fst r \<noteq> Some (Return n)))"

text \<open>
  What ends the child apart from the deadline: its own termination, and a signal that
  the supervisor forwards to it (the payload of \<^verbatim>\<open>SIGUSR1\<close>, or one of the four
  termination signals that \<open>cleanup\<close> passes on) and to which it reacts by terminating.
\<close>

fun ends_child :: "env \<Rightarrow> arrival \<Rightarrow> bool" where
  "ends_child E (Child_exits st) = True"
| "ends_child E (Sig s x) =
     (if s = SIGUSR1 then child_after_signal E x \<noteq> None
      else s \<in> {SIGINT, SIGQUIT, SIGHUP, SIGTERM} \<and> child_after_signal E s \<noteq> None)"

text \<open>
  Nothing of that kind arrives before the child is reaped.
\<close>

definition only_deadline_ends_child :: "env \<Rightarrow> bool" where
  "only_deadline_ends_child E =
     list_all (\<lambda>a. \<not> ends_child E a)
       (before_fork E @ before_block E @ concat (map (\<lambda>r. gap r @ susp r) (rounds E)))"

text \<open>
  The invariant of such a run.  Before \<^verbatim>\<open>fork\<close> there is no pid to signal; while the
  child runs, \<open>timed_out\<close> is still 0 and no pending signal can end the child; and once
  the child has terminated, it was by the \<^verbatim>\<open>SIGKILL\<close> of the deadline, with
  \<open>timed_out\<close> set.  \<open>cleanup\<close> is bound to the five signals of \<open>install_cleanup\<close>
  only.  \<open>evolves\<close> is a step that keeps the invariant, extends the trace, and changes
  the child at most from running to killed.
\<close>

definition alive :: "proc \<Rightarrow> bool" where
  "alive p = (child p = No_child \<or> child p = Running)"

definition pending_safe :: "env \<Rightarrow> proc \<Rightarrow> bool" where
  "pending_safe E p = list_all (\<lambda>s. \<not> ends_child E (Sig (fst s) (snd s))) (pending p)"

definition deadline_inv :: "env \<Rightarrow> proc \<Rightarrow> bool" where
  "deadline_inv E p =
     (term_signal p = SIGKILL \<and>
      (\<forall>s. disposition p s = H_cleanup \<longrightarrow> s \<in> {SIGALRM, SIGINT, SIGQUIT, SIGHUP, SIGTERM}) \<and>
      (child p = No_child \<longrightarrow> monitored_pid p = 0 \<and> timed_out p = 0 \<and> pending_safe E p) \<and>
      (child p = Running \<longrightarrow>
         monitored_pid p = fork_result E \<and> timed_out p = 0 \<and> pending_safe E p) \<and>
      (\<forall>st. child p = Zombie st \<longrightarrow>
         monitored_pid p = fork_result E \<and> st = WSignaled SIGKILL False \<and> timed_out p = 1 \<and>
         Kill (fork_result E) SIGKILL \<in> set (trace p)) \<and>
      (child p = Reaped \<longrightarrow>
         timed_out p = 1 \<and> Kill (fork_result E) SIGKILL \<in> set (trace p) \<and>
         Waitpid (fork_result E) (fork_result E) \<in> set (trace p)))"

definition evolves :: "env \<Rightarrow> proc \<Rightarrow> proc \<Rightarrow> bool" where
  "evolves E p p' =
     (deadline_inv E p' \<and> timeout_secs p' = timeout_secs p \<and>
      (\<exists>evs. trace p' = trace p @ evs) \<and>
      (child p' = child p \<or>
       (child p = Running \<and> child p' = Zombie (WSignaled SIGKILL False))))"

subsection \<open>Concrete runs\<close>

text \<open>
  An environment in which everything succeeds, descriptor 5 is open, the child has pid
  4242 and sleeps, and the first thing to arrive in the reap loop is \<^verbatim>\<open>SIGALRM\<close>.
\<close>

definition rusage0 :: rusage where
  "rusage0 =
     \<lparr>ru_utime = \<lparr>tv_sec_val = 0, tv_usec = 1\<rparr>, ru_stime = \<lparr>tv_sec_val = 0, tv_usec = 2\<rparr>,
      ru_maxrss = 1024, ru_majflt = 0, ru_minflt = 77, ru_inblock = 0, ru_oublock = 8,
      ru_nvcsw = 3, ru_nivcsw = 1\<rparr>"

definition env0 :: env where
  "env0 =
     \<lparr>inherited_mask = {}, fd_open = (\<lambda>fd. fd = 5), perror_errno = 0,
      clock_start = Some \<lparr>tv_sec = 0, tv_nsec = 5\<rparr>,
      fork_result = 4242, exec_ok = True, sigprocmask_ok = True, uninit_set = {},
      uninit_status = WContinued, timer_create_errno = 0, timer_settime_errno = 0,
      child_reaction = (\<lambda>sig. None), waitpid_error = False,
      before_fork = [], before_block = [],
      rounds = [\<lparr>gap = [], susp = [Sig SIGALRM 0]\<rparr>], after_reap = [],
      clock_end = \<lparr>tv_sec = 0, tv_nsec = 1505\<rparr>,
      getrusage_result = Some rusage0,
      dprintf_ok = (\<lambda>i. True)\<rparr>"

text \<open>The timer is created but cannot be armed, for the reason \<^verbatim>\<open>ENOSYS\<close>.\<close>

definition env_settime_enosys :: env where
  "env_settime_enosys = env0\<lparr>timer_settime_errno := ENOSYS\<rparr>"

text \<open>The process is the child (\<^verbatim>\<open>fork\<close> returned 0) and \<^verbatim>\<open>execlp\<close> fails.\<close>

definition env_exec_fails :: env where
  "env_exec_fails = env0\<lparr>fork_result := 0, exec_ok := False\<rparr>"

text \<open>
  The child exits on its own with code 0, is reaped, and then \<^verbatim>\<open>SIGUSR1\<close> arrives
  with the payload \<^verbatim>\<open>SIGTERM\<close>.
\<close>

definition env_late_usr1 :: env where
  "env_late_usr1 =
     env0\<lparr>rounds := [\<lparr>gap = [], susp = [Child_exits (WExited 0)]\<rparr>],
          after_reap := [Sig SIGUSR1 SIGTERM]\<rparr>"

text \<open>The child dumps core on signal 11 while the supervisor is suspended.\<close>

definition env_core_dump :: env where
  "env_core_dump = env0\<lparr>rounds := [\<lparr>gap = [], susp = [Child_exits (WSignaled 11 True)]\<rparr>]\<rparr>"

text \<open>\<^verbatim>\<open>waitpid\<close> fails.\<close>

definition env_wait_fails :: env where
  "env_wait_fails = env0\<lparr>waitpid_error := True\<rparr>"

text \<open>
  Descriptor 7 is not open, and \<^verbatim>\<open>perror\<close> cannot write its message: the call that
  fails inside it leaves \<^verbatim>\<open>EINVAL\<close> in \<^verbatim>\<open>errno\<close>.
\<close>

definition env_perror_fails :: env where
  "env_perror_fails = env0\<lparr>perror_errno := EINVAL\<rparr>"

text \<open>
  The deadline expires while the child runs: \<^verbatim>\<open>SIGALRM\<close> arrives between \<^verbatim>\<open>waitpid\<close>
  and \<^verbatim>\<open>sigsuspend\<close>, where it is blocked, and the child exits with code 0 before
  \<^verbatim>\<open>sigsuspend\<close> lets the handler run.
\<close>

definition env_exit_race :: env where
  "env_exit_race = env0\<lparr>rounds := [\<lparr>gap = [Sig SIGALRM 0, Child_exits (WExited 0)], susp = []\<rparr>]\<rparr>"

text \<open>The parent just after \<^verbatim>\<open>fork\<close>, with the cleanup handlers installed.\<close>

definition proc_armed :: proc where
  "proc_armed = install_cleanup SIGKILL ((init_proc env0)\<lparr>monitored_pid := 4242\<rparr>)"

section \<open>The argument parser and the validation in \<open>main\<close>\<close>

lemma char_val_consts [simp]:
  "char_val CHR ''0'' = 48" "char_val CHR ''1'' = 49" "char_val CHR ''9'' = 57"
  by (simp_all add: char_val_def)

lemma char_val_inj: "char_val a = char_val b \<Longrightarrow> a = b"
proof -
  assume h: "char_val a = char_val b"
  have la: "int (of_char a) < 256" and lb: "int (of_char b) < 256"
    using nat_of_char_less_256 [of a] nat_of_char_less_256 [of b] by linarith+
  from h la lb have "int (of_char a) = int (of_char b)"
    by (auto simp add: char_val_def Let_def split: if_splits simp del: nat_of_char_less_256)
  then show "a = b" by simp
qed

lemma parse_loop_nondigit: "\<not> list_all is_digit s \<Longrightarrow> parse_loop s v = Inl 2"
  by (induction s arbitrary: v) (auto simp: is_digit_def)

lemma parse_loop_Inl: "parse_loop s v = Inl e \<Longrightarrow> e = 2"
  by (induction s arbitrary: v) (auto split: if_splits)

lemma parse_int_Inl: "parse_int s = Inl e \<Longrightarrow> e = 2"
  by (auto simp: parse_int_def dest: parse_loop_Inl split: if_splits)

lemma parse_int_not_numeric: "\<not> numeric s \<Longrightarrow> parse_int s = Inl 2"
  by (cases s) (auto simp: parse_int_def numeric_def parse_loop_nondigit is_digit_def)

lemma parse_loop_digits: "list_all is_digit s \<Longrightarrow> \<exists>v. parse_loop s w = Inr v"
  by (induction s arbitrary: w) (auto simp: is_digit_def)

lemma parse_int_accepts:
  "(\<exists>v. parse_int s = Inr v) \<longleftrightarrow> numeric s \<and> hd s \<noteq> CHR ''0''"
proof (cases s)
  case Nil
  then show ?thesis by (simp add: parse_int_def numeric_def)
next
  case (Cons c cs)
  show ?thesis
  proof (cases "list_all is_digit s")
    case False
    then show ?thesis using parse_int_not_numeric [of s] by (auto simp: numeric_def)
  next
    case True
    have "char_val c = 48 \<longleftrightarrow> c = CHR ''0''"
      using char_val_inj [of c "CHR ''0''"] by auto
    with True Cons parse_loop_digits [OF True, of 0] show ?thesis
      by (auto simp: parse_int_def numeric_def is_digit_def char_val_def Let_def split: if_splits)
  qed
qed

lemma init_trace: "trace (init_proc E) = []"
  by (simp add: init_proc_def)

text \<open>
  What the validation in \<^verbatim>\<open>main\<close> does reject: a wrong argument count, an argument
  that is not numeric or that \<open>parse_int\<close> refuses (such as \<open>0\<close>), and a second
  argument whose parsed value, the one \<^verbatim>\<open>main\<close>
  stores in \<^verbatim>\<open>timeout_secs\<close>, is outside \<open>[1, 60]\<close> end the run with exit status 2; a
  descriptor that is not open ends it with the value of \<^verbatim>\<open>errno\<close> after \<^verbatim>\<open>perror\<close>.
  In each case no child was forked and nothing was written.
\<close>

lemma validation_rejections:
  "(length argv \<noteq> 3 \<longrightarrow> rejected_with 2 (main E argv)) \<and>
   (length argv = 3 \<and> (\<not> numeric (argv ! 1) \<or> \<not> numeric (argv ! 2))
      \<longrightarrow> rejected_with 2 (main E argv)) \<and>
   (length argv = 3 \<and> (parse_int (argv ! 1) = Inl e \<or> parse_int (argv ! 2) = Inl e)
      \<longrightarrow> rejected_with 2 (main E argv)) \<and>
   (length argv = 3 \<and> parse_int (argv ! 2) = Inr t \<and> (t < 1 \<or> 60 < t)
      \<longrightarrow> rejected_with 2 (main E argv)) \<and>
   (length argv = 3 \<and> parse_int (argv ! 1) = Inr fd \<and> parse_int (argv ! 2) = Inr t \<and>
    1 \<le> t \<and> t \<le> 60 \<and> \<not> fd_open E fd
      \<longrightarrow> fst (main E argv) = Return (if perror_errno E = 0 then EBADF else perror_errno E) \<and>
          \<not> list_ex is_fork (trace (snd (main E argv))) \<and>
          \<not> list_ex is_dprintf (trace (snd (main E argv))))"
proof -
  have c1: "length argv \<noteq> 3 \<Longrightarrow> rejected_with 2 (main E argv)"
    by (simp add: main_def Let_def rejected_with_def init_trace)
  have c2: "rejected_with 2 (main E argv)"
    if a: "length argv = 3 \<and> (\<not> numeric (argv ! 1) \<or> \<not> numeric (argv ! 2))"
  proof -
    from a have "parse_int (argv ! 1) = Inl 2 \<or> parse_int (argv ! 2) = Inl 2"
      using parse_int_not_numeric by blast
    with a show ?thesis
      by (auto simp: main_def Let_def rejected_with_def init_trace dest: parse_int_Inl
            split: sum.splits)
  qed
  have c2': "rejected_with 2 (main E argv)"
    if a: "length argv = 3 \<and> (parse_int (argv ! 1) = Inl e \<or> parse_int (argv ! 2) = Inl e)"
    using a
    by (auto simp: main_def Let_def rejected_with_def init_trace dest: parse_int_Inl
          split: sum.splits)
  have c3: "rejected_with 2 (main E argv)"
    if "length argv = 3 \<and> parse_int (argv ! 2) = Inr t \<and> (t < 1 \<or> 60 < t)"
    using that
    by (auto simp: main_def Let_def rejected_with_def init_trace init_proc_def
          MAX_TIMEOUT_SECS_def dest: parse_int_Inl split: sum.splits)
  have c4: "fst (main E argv) = Return (if perror_errno E = 0 then EBADF else perror_errno E) \<and>
          \<not> list_ex is_fork (trace (snd (main E argv))) \<and>
          \<not> list_ex is_dprintf (trace (snd (main E argv)))"
    if a: "length argv = 3 \<and> parse_int (argv ! 1) = Inr fd \<and> parse_int (argv ! 2) = Inr t \<and>
      1 \<le> t \<and> t \<le> 60 \<and> \<not> fd_open E fd"
  proof -
    from a have m: "main E argv =
        (Return (if perror_errno E = 0 then EBADF else perror_errno E),
         perror ''wrapper'' (emit (Fcntl_getfd fd) ((init_proc E)\<lparr>timeout_secs := t\<rparr>)))"
      by (simp add: main_def MAX_TIMEOUT_SECS_def Let_def EBADF_def)
    show ?thesis
      unfolding m by (simp add: perror_def emit_def init_trace)
  qed
  from c1 c2 c2' c3 c4 show ?thesis by blast
qed

section \<open>The primitives\<close>

text \<open>What each system call of the model does to the trace and to the fields.\<close>

lemma emit_simps [simp]:
  "trace (emit e p) = trace p @ [e]"
  "timed_out (emit e p) = timed_out p"
  "term_signal (emit e p) = term_signal p"
  "timeout_secs (emit e p) = timeout_secs p"
  "monitored_pid (emit e p) = monitored_pid p"
  "foreground (emit e p) = foreground p"
  "disposition (emit e p) = disposition p"
  "blocked (emit e p) = blocked p"
  "pending (emit e p) = pending p"
  "handled (emit e p) = handled p"
  "child (emit e p) = child p"
  by (simp_all add: emit_def)

lemma perror_simps [simp]:
  "trace (perror s p) = trace p @ [Perror s]"
  "timed_out (perror s p) = timed_out p"
  "term_signal (perror s p) = term_signal p"
  "timeout_secs (perror s p) = timeout_secs p"
  "monitored_pid (perror s p) = monitored_pid p"
  "foreground (perror s p) = foreground p"
  "disposition (perror s p) = disposition p"
  "blocked (perror s p) = blocked p"
  "pending (perror s p) = pending p"
  "handled (perror s p) = handled p"
  "child (perror s p) = child p"
  by (simp_all add: perror_def)

lemma sigaction_simps [simp]:
  "fst (sigaction sg h p) = (if catchable sg then 0 else -1)"
  "trace (snd (sigaction sg h p)) = trace p @ [Sigaction sg h]"
  "disposition (snd (sigaction sg h p)) s =
     (if s = sg \<and> catchable sg then h else disposition p s)"
  "timed_out (snd (sigaction sg h p)) = timed_out p"
  "term_signal (snd (sigaction sg h p)) = term_signal p"
  "timeout_secs (snd (sigaction sg h p)) = timeout_secs p"
  "monitored_pid (snd (sigaction sg h p)) = monitored_pid p"
  "foreground (snd (sigaction sg h p)) = foreground p"
  "blocked (snd (sigaction sg h p)) = blocked p"
  "pending (snd (sigaction sg h p)) = pending p"
  "handled (snd (sigaction sg h p)) = handled p"
  "child (snd (sigaction sg h p)) = child p"
  by (simp_all add: sigaction_def)

lemma signal_simps [simp]:
  "trace (signal sg h p) = trace p @ [Signal sg h]"
  "disposition (signal sg h p) s =
     (if s = sg \<and> catchable sg then h else disposition p s)"
  "timed_out (signal sg h p) = timed_out p"
  "term_signal (signal sg h p) = term_signal p"
  "timeout_secs (signal sg h p) = timeout_secs p"
  "monitored_pid (signal sg h p) = monitored_pid p"
  "foreground (signal sg h p) = foreground p"
  "blocked (signal sg h p) = blocked p"
  "pending (signal sg h p) = pending p"
  "handled (signal sg h p) = handled p"
  "child (signal sg h p) = child p"
  by (simp_all add: signal_def)

lemma kill_simps [simp]:
  "trace (kill E pid sg p) = trace p @ [Kill pid sg]"
  "disposition (kill E pid sg p) = disposition p"
  "timed_out (kill E pid sg p) = timed_out p"
  "term_signal (kill E pid sg p) = term_signal p"
  "timeout_secs (kill E pid sg p) = timeout_secs p"
  "monitored_pid (kill E pid sg p) = monitored_pid p"
  "foreground (kill E pid sg p) = foreground p"
  "blocked (kill E pid sg p) = blocked p"
  "handled (kill E pid sg p) = handled p"
  by (simp_all add: kill_def Let_def split: option.splits)

lemma install_cleanup_simps [simp]:
  "trace (install_cleanup sigterm p) =
     trace p @ map (\<lambda>s. Sigaction s H_cleanup) [SIGALRM, SIGINT, SIGQUIT, SIGHUP, SIGTERM, sigterm]"
  "timed_out (install_cleanup sigterm p) = timed_out p"
  "term_signal (install_cleanup sigterm p) = term_signal p"
  "timeout_secs (install_cleanup sigterm p) = timeout_secs p"
  "monitored_pid (install_cleanup sigterm p) = monitored_pid p"
  "foreground (install_cleanup sigterm p) = foreground p"
  "blocked (install_cleanup sigterm p) = blocked p"
  "pending (install_cleanup sigterm p) = pending p"
  "handled (install_cleanup sigterm p) = handled p"
  "child (install_cleanup sigterm p) = child p"
  by (simp_all add: install_cleanup_def)

lemma disposition_install_cleanup:
  "disposition (install_cleanup sigterm p) s =
     (if s \<in> {SIGALRM, SIGINT, SIGQUIT, SIGHUP, SIGTERM, sigterm} \<and> catchable s then H_cleanup
      else disposition p s)"
  by (auto simp: install_cleanup_def)

lemma new_events_append [simp]: "trace p' = trace p @ evs \<Longrightarrow> new_events p p' = evs"
  by (simp add: new_events_def)

lemma alarm_simps [simp]:
  "trace (alarm n p) = trace p @ [Alarm (to_unsigned n)]"
  "timed_out (alarm n p) = timed_out p"
  "term_signal (alarm n p) = term_signal p"
  "timeout_secs (alarm n p) = timeout_secs p"
  "monitored_pid (alarm n p) = monitored_pid p"
  "foreground (alarm n p) = foreground p"
  "disposition (alarm n p) = disposition p"
  "blocked (alarm n p) = blocked p"
  "pending (alarm n p) = pending p"
  "handled (alarm n p) = handled p"
  "child (alarm n p) = child p"
  by (simp_all add: alarm_def)

lemma settimeout_trace:
  "trace (settimeout E warn p) = trace p @
     (if timer_create_errno E = 0
      then [Timer_create, Timer_settime (timeout_secs p)] @
           (if timer_settime_errno E = 0 then []
            else (if warn then [Perror ''warning: timer_settime''] else []) @
                 [Timer_delete, Alarm (to_unsigned (timeout_secs p))])
      else [Timer_create] @
           (if warn \<and> timer_create_errno E \<noteq> ENOSYS then [Perror ''warning: timer_create'']
            else []) @
           [Alarm (to_unsigned (timeout_secs p))])"
  by (simp add: settimeout_def Let_def)

lemma settimeout_simps [simp]:
  "timed_out (settimeout E warn p) = timed_out p"
  "term_signal (settimeout E warn p) = term_signal p"
  "timeout_secs (settimeout E warn p) = timeout_secs p"
  "monitored_pid (settimeout E warn p) = monitored_pid p"
  "foreground (settimeout E warn p) = foreground p"
  "disposition (settimeout E warn p) = disposition p"
  "blocked (settimeout E warn p) = blocked p"
  "pending (settimeout E warn p) = pending p"
  "handled (settimeout E warn p) = handled p"
  "child (settimeout E warn p) = child p"
  by (simp_all add: settimeout_def Let_def)

lemma and_then_simps [simp]:
  "and_then (None, p) f = f p"
  "and_then (Some out, p) f = (Some out, p)"
  by (simp_all add: and_then_def)

lemma kill_child:
  "child (kill E pid sg p) =
     (if pid = fork_result E \<and> child p = Running
      then (case child_after_signal E sg of None \<Rightarrow> Running | Some st \<Rightarrow> Zombie st)
      else child p)"
  "pending (kill E pid sg p) =
     (if pid = fork_result E \<and> child p = Running
      then (case child_after_signal E sg of None \<Rightarrow> pending p | Some st \<Rightarrow> pending p @ [(SIGCHLD, 0)])
      else pending p)"
  by (simp_all add: kill_def Let_def split: option.splits)

lemma reap_loop_zombie:
  "child p = Zombie st \<Longrightarrow> \<not> waitpid_error E \<Longrightarrow> monitored_pid p = fork_result E \<Longrightarrow>
   fork_result E \<noteq> 0 \<Longrightarrow>
   reap_loop E cs rs status p =
     (None, (fork_result E, st), emit (Waitpid (fork_result E) (fork_result E)) (p\<lparr>child := Reaped\<rparr>))"
  by (cases rs) (simp_all add: waitpid_def)

lemma show_int_9: "show_int 9 = ''9''"
  by (simp add: show_int_def digit_char_def)

lemmas signal_numbers = SIGHUP_def SIGINT_def SIGQUIT_def SIGKILL_def SIGUSR1_def SIGALRM_def
  SIGTERM_def SIGCHLD_def SIGTTIN_def SIGTTOU_def SIGSTOP_def

lemma dprintf_all_ok:
  "(\<forall>i<length ss. dprintf_ok E (k + i)) \<Longrightarrow>
   dprintf_all E fd k ss p = (Return 0, p\<lparr>trace := trace p @ map (Dprintf fd) ss\<rparr>)"
proof (induction ss arbitrary: k p)
  case Nil
  then show ?case by simp
next
  case (Cons s ss)
  have "dprintf_ok E k" using Cons.prems by force
  moreover have "\<forall>i<length ss. dprintf_ok E (Suc k + i)"
    using Cons.prems by force
  ultimately show ?case
    using Cons.IH [of "Suc k" "emit (Dprintf fd s) p"] by (simp add: emit_def)
qed

lemma dprintf_all_Return0:
  "dprintf_all E fd k ss p = (Return 0, p') \<Longrightarrow> p' = p\<lparr>trace := trace p @ map (Dprintf fd) ss\<rparr>"
proof (induction ss arbitrary: k p)
  case Nil
  then show ?case by simp
next
  case (Cons s ss)
  from Cons.prems have ok: "dprintf_ok E k"
    by (auto split: if_splits)
  with Cons.prems have "dprintf_all E fd (Suc k) ss (emit (Dprintf fd s) p) = (Return 0, p')"
    by simp
  from Cons.IH [OF this] show ?case
    by (simp add: emit_def)
qed

lemma length_record_chunks [simp]: "length (record_chunks f ty v ru real) = 15"
  by (simp add: record_chunks_def)

section \<open>The termination handler\<close>

text \<open>
  Claim C4.  An invocation of \<^verbatim>\<open>cleanup\<close> with signal \<open>sig\<close> resolves the signal
  (the configured termination signal when \<open>sig\<close> is \<^verbatim>\<open>SIGALRM\<close>, else \<open>sig\<close>) and sets
  \<open>timed_out\<close> exactly when \<open>sig\<close> is \<^verbatim>\<open>SIGALRM\<close>.  When \<open>monitored_pid\<close> is set it
  returns after one \<^verbatim>\<open>kill\<close> of the resolved signal to that pid and nothing else; when
  it is not set, it sends nothing and ends the process with \<^verbatim>\<open>_exit(128 + signal)\<close>.
  \<open>install_cleanup\<close> registers it, in this order, for \<^verbatim>\<open>SIGALRM\<close>, \<^verbatim>\<open>SIGINT\<close>,
  \<^verbatim>\<open>SIGQUIT\<close>, \<^verbatim>\<open>SIGHUP\<close>, \<^verbatim>\<open>SIGTERM\<close> and the configured signal, and a
  signal bound to it runs it.
\<close>

theorem cleanup_handler:
  "fst (cleanup E sig p) =
     (if monitored_pid p \<noteq> 0 then None
      else Some (Exit (128 + (if sig = SIGALRM then term_signal p else sig)))) \<and>
   timed_out (snd (cleanup E sig p)) = (if sig = SIGALRM then 1 else timed_out p) \<and>
   new_events p (snd (cleanup E sig p)) =
     (if monitored_pid p \<noteq> 0
      then [Kill (monitored_pid p) (if sig = SIGALRM then term_signal p else sig)]
      else []) \<and>
   new_events p (install_cleanup sigterm p) =
     map (\<lambda>s. Sigaction s H_cleanup) [SIGALRM, SIGINT, SIGQUIT, SIGHUP, SIGTERM, sigterm] \<and>
   (s \<in> set [SIGALRM, SIGINT, SIGQUIT, SIGHUP, SIGTERM, sigterm] \<and> catchable s
      \<longrightarrow> disposition (install_cleanup sigterm p) s = H_cleanup) \<and>
   (disposition p sig = H_cleanup
      \<longrightarrow> run_handler E sig payload p = cleanup E sig (p\<lparr>handled := Suc (handled p)\<rparr>))"
proof -
  have c1: "fst (cleanup E sig p) =
     (if monitored_pid p \<noteq> 0 then None
      else Some (Exit (128 + (if sig = SIGALRM then term_signal p else sig))))"
    by (simp add: cleanup_def Let_def)
  have c2: "timed_out (snd (cleanup E sig p)) = (if sig = SIGALRM then 1 else timed_out p)"
    by (simp add: cleanup_def Let_def send_sig_def)
  have c3: "new_events p (snd (cleanup E sig p)) =
     (if monitored_pid p \<noteq> 0
      then [Kill (monitored_pid p) (if sig = SIGALRM then term_signal p else sig)]
      else [])"
    by (simp add: cleanup_def Let_def send_sig_def new_events_def)
  have c4: "new_events p (install_cleanup sigterm p) =
     map (\<lambda>s. Sigaction s H_cleanup) [SIGALRM, SIGINT, SIGQUIT, SIGHUP, SIGTERM, sigterm]"
    by simp
  have c5: "disposition (install_cleanup sigterm p) s = H_cleanup"
    if "s \<in> set [SIGALRM, SIGINT, SIGQUIT, SIGHUP, SIGTERM, sigterm] \<and> catchable s"
    using that by (simp add: disposition_install_cleanup)
  have c6: "run_handler E sig payload p = cleanup E sig (p\<lparr>handled := Suc (handled p)\<rparr>)"
    if "disposition p sig = H_cleanup"
    using that by (simp add: run_handler_def)
  from c1 c2 c3 c4 c5 c6 show ?thesis by blast
qed

text \<open>
  The handler at \<^verbatim>\<open>SIGALRM\<close> in the parent of \<open>proc_armed\<close>: \<open>timed_out\<close> is
  set and \<^verbatim>\<open>SIGKILL\<close> goes to pid 4242.
\<close>

theorem cleanup_handler_witness:
  "SIGTERM \<in> set [SIGALRM, SIGINT, SIGQUIT, SIGHUP, SIGTERM, SIGKILL] \<and> catchable SIGTERM \<and>
   disposition (install_cleanup SIGKILL proc_armed) SIGTERM = H_cleanup \<and>
   disposition proc_armed SIGALRM = H_cleanup \<and>
   run_handler env0 SIGALRM 0 proc_armed =
     cleanup env0 SIGALRM (proc_armed\<lparr>handled := Suc (handled proc_armed)\<rparr>) \<and>
   fst (cleanup env0 SIGALRM proc_armed) = None \<and>
   timed_out (snd (cleanup env0 SIGALRM proc_armed)) = 1 \<and>
   new_events proc_armed (snd (cleanup env0 SIGALRM proc_armed)) = [Kill 4242 SIGKILL]"
proof -
  have h1: "SIGTERM \<in> set [SIGALRM, SIGINT, SIGQUIT, SIGHUP, SIGTERM, SIGKILL] \<and> catchable SIGTERM"
    by (simp add: catchable_def SIGTERM_def SIGKILL_def SIGSTOP_def)
  have h2: "disposition proc_armed SIGALRM = H_cleanup"
    by (simp add: proc_armed_def disposition_install_cleanup catchable_def
          SIGALRM_def SIGKILL_def SIGSTOP_def)
  have m: "monitored_pid proc_armed = 4242" and t: "term_signal proc_armed = SIGKILL"
    by (simp_all add: proc_armed_def init_proc_def)
  show ?thesis
    using h1 h2 m t cleanup_handler [of env0 SIGALRM proc_armed SIGKILL SIGTERM 0]
    by simp
qed

section \<open>The deadline timer\<close>

text \<open>
  Claim C9, as the specification words it, fails: when the timer was created and arming
  it fails, the warning is printed whatever the reason, also for \<^verbatim>\<open>ENOSYS\<close>
  (unsupported).
\<close>

theorem settimeout_warns_on_enosys:
  "timer_create_errno env_settime_enosys = 0 \<and>
   timer_settime_errno env_settime_enosys = ENOSYS \<and>
   new_events (init_proc env_settime_enosys)
     (settimeout env_settime_enosys True (init_proc env_settime_enosys)) =
     [Timer_create, Timer_settime 60, Perror ''warning: timer_settime'', Timer_delete, Alarm 60]"
  by (simp add: settimeout_trace new_events_def env_settime_enosys_def env0_def ENOSYS_def
        init_proc_def MAX_TIMEOUT_SECS_def to_unsigned_def)

text \<open>
  Claim C9, amended.  \<open>settimeout\<close> always returns and changes nothing but the trace.
  When creating or arming the timer fails it ends with \<^verbatim>\<open>alarm(timeout_secs)\<close>, the
  same number of seconds for every timeout that fits \<^verbatim>\<open>unsigned int\<close>.  The warning
  is printed, when \<open>warn\<close> is set, on every arming failure, and on a creation failure
  only when the reason is not \<^verbatim>\<open>ENOSYS\<close>.  When both calls succeed there is neither a
  warning nor an alarm.
\<close>

theorem settimeout_fallback:
  "(timer_create_errno E = 0 \<and> timer_settime_errno E = 0
      \<longrightarrow> new_events p (settimeout E warn p) = [Timer_create, Timer_settime (timeout_secs p)]) \<and>
   (timer_create_errno E = 0 \<and> timer_settime_errno E \<noteq> 0
      \<longrightarrow> new_events p (settimeout E warn p) =
            [Timer_create, Timer_settime (timeout_secs p)] @
            (if warn then [Perror ''warning: timer_settime''] else []) @
            [Timer_delete, Alarm (to_unsigned (timeout_secs p))]) \<and>
   (timer_create_errno E \<noteq> 0
      \<longrightarrow> new_events p (settimeout E warn p) =
            [Timer_create] @
            (if warn \<and> timer_create_errno E \<noteq> ENOSYS then [Perror ''warning: timer_create'']
             else []) @
            [Alarm (to_unsigned (timeout_secs p))]) \<and>
   (0 \<le> timeout_secs p \<and> timeout_secs p < 4294967296
      \<longrightarrow> to_unsigned (timeout_secs p) = timeout_secs p) \<and>
   settimeout E warn p = p\<lparr>trace := trace (settimeout E warn p)\<rparr>"
proof -
  have "settimeout E warn p = p\<lparr>trace := trace (settimeout E warn p)\<rparr>"
    by (simp add: settimeout_def Let_def alarm_def perror_def emit_def)
  moreover have "to_unsigned (timeout_secs p) = timeout_secs p"
    if "0 \<le> timeout_secs p \<and> timeout_secs p < 4294967296"
    using that by (simp add: to_unsigned_def)
  ultimately show ?thesis
    by (simp add: settimeout_trace new_events_def)
qed

text \<open>The amended claim at the environment of the counterexample.\<close>

theorem settimeout_fallback_witness:
  "timer_create_errno env_settime_enosys = 0 \<and> timer_settime_errno env_settime_enosys \<noteq> 0 \<and>
   0 \<le> timeout_secs (init_proc env_settime_enosys) \<and>
   timeout_secs (init_proc env_settime_enosys) < 4294967296 \<and>
   new_events (init_proc env_settime_enosys)
     (settimeout env_settime_enosys True (init_proc env_settime_enosys)) =
     [Timer_create, Timer_settime 60, Perror ''warning: timer_settime'', Timer_delete, Alarm 60]"
proof -
  have h: "timer_create_errno env_settime_enosys = 0 \<and> timer_settime_errno env_settime_enosys \<noteq> 0"
    by (simp add: env_settime_enosys_def env0_def ENOSYS_def)
  have t: "timeout_secs (init_proc env_settime_enosys) = 60"
    by (simp add: init_proc_def MAX_TIMEOUT_SECS_def)
  show ?thesis
    using h t settimeout_fallback [of env_settime_enosys "init_proc env_settime_enosys" True]
    by simp
qed

section \<open>Failure of \<open>execlp\<close>\<close>

text \<open>
  Claim C7.  In the child, with \<^verbatim>\<open>execlp\<close> failing, \<^verbatim>\<open>main\<close> reports the error and
  returns 1.  The parent classifies a child that ended with exit status 1 as
  \<open>exited\<close> with value 1, whether that status came from here or from the executed
  program: the status is not a reserved one.
\<close>

theorem exec_failure_returns_1:
  "fst (main env_exec_fails [''wrapper'', ''5'', ''10'']) = Return 1 \<and>
   exit_status (Return 1) = Some 1 \<and>
   new_events (init_proc env_exec_fails) (snd (main env_exec_fails [''wrapper'', ''5'', ''10''])) =
     [Fcntl_getfd 5, Setpgid 0 0,
      Sigaction SIGALRM H_cleanup, Sigaction SIGINT H_cleanup, Sigaction SIGQUIT H_cleanup,
      Sigaction SIGHUP H_cleanup, Sigaction SIGTERM H_cleanup, Sigaction SIGKILL H_cleanup,
      Signal SIGTTIN SIG_IGN, Signal SIGTTOU SIG_IGN, Sigaction SIGCHLD H_chld,
      Sig_unblock [SIGCHLD], Clock_gettime, Fork 0,
      Signal SIGTTIN SIG_DFL, Signal SIGTTOU SIG_DFL, Close 5, Execlp ''/ATO/runner'',
      Perror ''execlp''] \<and>
   classify 4242 (WExited 1) = (''exited'', 1)"
proof -
  have p5: "parse_int ''5'' = Inr 5" and p10: "parse_int ''10'' = Inr 10"
    by (simp_all add: parse_int_def wrap32_def char_val_def)
  have e: "fd_open env_exec_fails 5" "sigprocmask_ok env_exec_fails" "before_fork env_exec_fails = []"
    "clock_start env_exec_fails = Some \<lparr>tv_sec = 0, tv_nsec = 5\<rparr>"
    "fork_result env_exec_fails = 0" "\<not> exec_ok env_exec_fails"
    by (simp_all add: env_exec_fails_def env0_def)
  have m: "main env_exec_fails [''wrapper'', ''5'', ''10''] =
      supervise env_exec_fails 5
        (emit (Fcntl_getfd 5) ((init_proc env_exec_fails)\<lparr>timeout_secs := 10\<rparr>))"
    using e by (simp add: main_def p5 p10 Let_def MAX_TIMEOUT_SECS_def)
  have i: "foreground (init_proc env_exec_fails) = False" "pending (init_proc env_exec_fails) = []"
    "trace (init_proc env_exec_fails) = []" "term_signal (init_proc env_exec_fails) = SIGKILL"
    by (simp_all add: init_proc_def)
  show ?thesis
    unfolding m using e i
    by (simp add: supervise_def startup_def Let_def install_sigchld_def unblock_signal_def
          flush_def child_side_def new_events_def classify_def)
qed

section \<open>Steps that only add harmless events\<close>

text \<open>
  Signal handlers, signal delivery, the mask calls, the timer and the reap loop add only
  \<open>quiet\<close> events to the trace, leave \<open>monitored_pid\<close> alone and never return from
  \<^verbatim>\<open>main\<close>.
\<close>

lemma quiet_ext_refl [simp]: "quiet_ext p p"
  by (simp add: quiet_ext_def)

lemma quiet_ext_trans: "quiet_ext p q \<Longrightarrow> quiet_ext q r \<Longrightarrow> quiet_ext p r"
  by (auto simp: quiet_ext_def)

lemma quiet_ext_emit: "quiet e \<Longrightarrow> quiet_ext p q \<Longrightarrow> quiet_ext p (emit e q)"
  by (auto simp: quiet_ext_def)

lemma quiet_ext_update [simp]:
  "quiet_ext p (q\<lparr>blocked := b\<rparr>) = quiet_ext p q"
  "quiet_ext p (q\<lparr>pending := pe\<rparr>) = quiet_ext p q"
  "quiet_ext p (q\<lparr>handled := h\<rparr>) = quiet_ext p q"
  "quiet_ext p (q\<lparr>child := c\<rparr>) = quiet_ext p q"
  "quiet_ext p (q\<lparr>timed_out := t\<rparr>) = quiet_ext p q"
  "quiet_ext p (q\<lparr>disposition := d\<rparr>) = quiet_ext p q"
  "quiet_ext (p\<lparr>blocked := b\<rparr>) q = quiet_ext p q"
  "quiet_ext (p\<lparr>pending := pe\<rparr>) q = quiet_ext p q"
  "quiet_ext (p\<lparr>handled := h\<rparr>) q = quiet_ext p q"
  "quiet_ext (p\<lparr>child := c\<rparr>) q = quiet_ext p q"
  "quiet_ext (p\<lparr>timed_out := t\<rparr>) q = quiet_ext p q"
  "quiet_ext (p\<lparr>disposition := d\<rparr>) q = quiet_ext p q"
  by (simp_all add: quiet_ext_def)

lemma quiet_step_None [simp]: "quiet_step p (None, q) = quiet_ext p q"
  by (simp add: quiet_step_def)

lemma quiet_step_trans: "quiet_ext p q \<Longrightarrow> quiet_step q r \<Longrightarrow> quiet_step p r"
  by (auto simp: quiet_step_def intro: quiet_ext_trans)

lemma quiet_step_and_then:
  "quiet_step p r \<Longrightarrow> (\<And>q. quiet_ext p q \<Longrightarrow> quiet_step q (f q)) \<Longrightarrow>
   quiet_step p (and_then r f)"
  by (cases r; cases "fst r") (auto simp: and_then_def intro: quiet_step_trans)

lemma quiet_ext_kill: "quiet_ext p (kill E pid sg p)"
  by (simp add: quiet_ext_def)

lemma quiet_ext_signal: "quiet_ext p (signal sg h p)"
  by (simp add: quiet_ext_def)

lemma quiet_ext_send_sig: "quiet_ext p (send_sig E whr sg p)"
  by (simp add: send_sig_def quiet_ext_def)

lemma quiet_step_cleanup: "quiet_step p (cleanup E sg p)"
  by (simp add: cleanup_def Let_def quiet_step_def quiet_ext_def send_sig_def)

lemma quiet_step_handle_usr1: "quiet_step p (handle_usr1 E sg payload p)"
  by (simp add: handle_usr1_def quiet_step_def quiet_ext_def)

lemma quiet_step_run_handler: "quiet_step p (run_handler E sg payload p)"
proof -
  have h: "quiet_step p r" if "quiet_step (p\<lparr>handled := Suc (handled p)\<rparr>) r" for r
    using that by (simp add: quiet_step_def)
  show ?thesis
  proof (cases "disposition p sg")
    case SIG_DFL
    then show ?thesis by (simp add: run_handler_def quiet_step_def)
  next
    case SIG_IGN
    then show ?thesis by (simp add: run_handler_def)
  next
    case H_cleanup
    then show ?thesis by (simp add: run_handler_def h quiet_step_cleanup)
  next
    case H_chld
    then show ?thesis by (simp add: run_handler_def chld_def)
  next
    case H_handle_usr1
    then show ?thesis by (simp add: run_handler_def h quiet_step_handle_usr1)
  qed
qed

lemma quiet_step_deliver: "quiet_step p (deliver E s p)"
  by (simp add: deliver_def quiet_step_run_handler)

lemma quiet_step_flush_list: "quiet_step p (flush_list E ss p)"
proof (induction ss arbitrary: p)
  case Nil
  then show ?case by simp
next
  case (Cons s ss)
  show ?case
    by (simp, rule quiet_step_and_then [OF quiet_step_deliver]) (rule Cons.IH)
qed

lemma quiet_step_flush: "quiet_step p (flush E p)"
  using quiet_step_flush_list [of "p\<lparr>pending := []\<rparr>" E "pending p"]
  by (simp add: flush_def quiet_step_def)

lemma quiet_step_arrive: "quiet_step p (arrive E a p)"
proof (cases a)
  case (Sig sg payload)
  then show ?thesis by (simp add: arrive_def quiet_step_deliver)
next
  case (Child_exits st)
  then show ?thesis
    using quiet_step_deliver [of "p\<lparr>child := Zombie st\<rparr>" E "(SIGCHLD, 0)"]
    by (simp add: arrive_def quiet_step_def)
qed

lemma quiet_step_arrive_all: "quiet_step p (arrive_all E as p)"
proof (induction as arbitrary: p)
  case Nil
  then show ?case by simp
next
  case (Cons a as)
  show ?case
    by (simp, rule quiet_step_and_then [OF quiet_step_arrive]) (rule Cons.IH)
qed

lemma quiet_step_arrive_until_handled:
  "quiet_step p (fst (arrive_until_handled E n0 as p))"
proof (induction as arbitrary: p)
  case Nil
  then show ?case by simp
next
  case (Cons a as)
  show ?case
  proof (cases "arrive E a p")
    case (Pair out p1)
    with quiet_step_arrive [of p E a] Cons.IH [of p1] show ?thesis
      by (cases out) (auto simp: quiet_step_def intro: quiet_ext_trans)
  qed
qed

lemma quiet_step_sigsuspend: "quiet_step p (sigsuspend E cs as p)"
proof -
  let ?p0 = "emit Sigsuspend (p\<lparr>blocked := cs\<rparr>)"
  have e: "quiet_ext p ?p0"
    by (simp add: quiet_ext_emit)
  obtain o1 p1 where f: "flush E ?p0 = (o1, p1)" by (cases "flush E ?p0")
  with quiet_step_flush [of ?p0 E] have q1: "quiet_step ?p0 (o1, p1)" by simp
  show ?thesis
  proof (cases o1)
    case (Some out)
    with f q1 e show ?thesis
      by (auto simp: sigsuspend_def intro: quiet_step_trans)
  next
    case None
    obtain o2 p2 rest where a: "arrive_until_handled E (handled p) as p1 = ((o2, p2), rest)"
      by (cases "arrive_until_handled E (handled p) as p1") auto
    with quiet_step_arrive_until_handled [of p1 E "handled p" as]
    have q2: "quiet_step p1 (o2, p2)" by simp
    from q1 None e have e1: "quiet_ext p p1"
      by (auto intro: quiet_ext_trans)
    show ?thesis
    proof (cases o2)
      case (Some out)
      with f None a q2 e1 show ?thesis
        by (auto simp: sigsuspend_def intro: quiet_step_trans)
    next
      case n2: None
      with q2 e1 have e2: "quiet_ext p p2" by (auto intro: quiet_ext_trans)
      have "quiet_step p (arrive_all E rest (p2\<lparr>blocked := blocked p\<rparr>))"
        by (rule quiet_step_trans [OF _ quiet_step_arrive_all]) (simp add: e2)
      with f None a n2 e2 show ?thesis
        by (auto simp: sigsuspend_def quiet_step_def)
    qed
  qed
qed

lemma quiet_step_unblock_signal: "quiet_step p (unblock_signal E sg p)"
proof (cases "sigprocmask_ok E")
  case True
  let ?q = "emit (Sig_unblock [sg]) (p\<lparr>blocked := blocked p - {sg}\<rparr>)"
  have "quiet_ext p ?q" by (simp add: quiet_ext_emit)
  with quiet_step_flush [of ?q E] True show ?thesis
    by (auto simp: unblock_signal_def intro: quiet_step_trans)
next
  case False
  then show ?thesis
    by (simp add: unblock_signal_def quiet_ext_def)
qed

lemma quiet_ext_settimeout: "quiet_ext p (settimeout E warn p)"
  by (simp add: quiet_ext_def settimeout_trace)

lemma quiet_ext_block: "quiet_ext p (snd (block_cleanup_and_chld E sg p))"
  by (simp add: block_cleanup_and_chld_def Let_def quiet_ext_def)

lemma quiet_ext_waitpid: "quiet_ext p (snd (snd (waitpid E pid st p)))"
  by (simp add: waitpid_def quiet_ext_def split: child_state.splits)

lemma quiet_reap_loop:
  "quiet_ext p (snd (snd (reap_loop E cs rs st p))) \<and>
   (\<forall>n. fst (reap_loop E cs rs st p) \<noteq> Some (Return n))"
proof (induction rs arbitrary: st p)
  case Nil
  obtain w st1 p1 where wp: "waitpid E (monitored_pid p) st p = (w, st1, p1)"
    by (cases "waitpid E (monitored_pid p) st p") auto
  with quiet_ext_waitpid [of p E "monitored_pid p" st] have "quiet_ext p p1" by simp
  with wp show ?case
    by (auto intro: quiet_ext_emit)
next
  case (Cons r rs)
  obtain w st1 p1 where wp: "waitpid E (monitored_pid p) st p = (w, st1, p1)"
    by (cases "waitpid E (monitored_pid p) st p") auto
  with quiet_ext_waitpid [of p E "monitored_pid p" st] have e1: "quiet_ext p p1" by simp
  have s: "quiet_step p1 (and_then (arrive_all E (gap r) p1) (sigsuspend E cs (susp r)))"
    by (rule quiet_step_and_then [OF quiet_step_arrive_all]) (rule quiet_step_sigsuspend)
  obtain o2 p2 where a: "and_then (arrive_all E (gap r) p1) (sigsuspend E cs (susp r)) = (o2, p2)"
    by (cases "and_then (arrive_all E (gap r) p1) (sigsuspend E cs (susp r))")
  with s e1 have e2: "quiet_ext p p2" and nr: "\<forall>n. o2 \<noteq> Some (Return n)"
    by (auto simp: quiet_step_def intro: quiet_ext_trans)
  show ?case
  proof (cases "w = 0")
    case False
    with wp e1 show ?thesis by simp
  next
    case True
    show ?thesis
    proof (cases o2)
      case None
      with wp True a e2 Cons.IH [of p2 st1] show ?thesis
        by (auto intro: quiet_ext_trans)
    next
      case (Some out)
      with wp True a e2 nr show ?thesis by simp
    qed
  qed
qed

lemma quiet_plain: "quiet e \<Longrightarrow> plain e"
  by (cases e) (simp_all add: plain_def)

lemma adds_only_refl [simp]: "adds_only ok p p"
  by (simp add: adds_only_def)

lemma adds_only_trans: "adds_only ok p q \<Longrightarrow> adds_only ok q r \<Longrightarrow> adds_only ok p r"
  by (auto simp: adds_only_def)

lemma adds_only_emit: "ok e \<Longrightarrow> adds_only ok p q \<Longrightarrow> adds_only ok p (emit e q)"
  by (auto simp: adds_only_def)

lemma adds_only_mono: "adds_only ok p q \<Longrightarrow> (\<And>e. ok e \<Longrightarrow> ok' e) \<Longrightarrow> adds_only ok' p q"
  by (auto simp: adds_only_def list_all_iff)

lemma quiet_ext_adds_only: "quiet_ext p q \<Longrightarrow> adds_only quiet p q"
  by (auto simp: quiet_ext_def adds_only_def)

lemma quiet_ext_plain: "quiet_ext p q \<Longrightarrow> adds_only plain p q"
  by (rule adds_only_mono [OF quiet_ext_adds_only]) (simp_all add: quiet_plain)

lemma adds_only_update [simp]:
  "adds_only ok p (q\<lparr>blocked := b\<rparr>) = adds_only ok p q"
  "adds_only ok p (q\<lparr>pending := pe\<rparr>) = adds_only ok p q"
  "adds_only ok p (q\<lparr>handled := h\<rparr>) = adds_only ok p q"
  "adds_only ok p (q\<lparr>child := c\<rparr>) = adds_only ok p q"
  "adds_only ok p (q\<lparr>timed_out := t\<rparr>) = adds_only ok p q"
  "adds_only ok p (q\<lparr>timeout_secs := ts\<rparr>) = adds_only ok p q"
  "adds_only ok p (q\<lparr>preserve_status := ps\<rparr>) = adds_only ok p q"
  "adds_only ok p (q\<lparr>disposition := d\<rparr>) = adds_only ok p q"
  by (simp_all add: adds_only_def)

lemma adds_only_plain_filters:
  assumes "adds_only plain p q"
  shows "filter is_dprintf (trace q) = filter is_dprintf (trace p)"
    and "filter is_usr1_install (trace q) = filter is_usr1_install (trace p)"
proof -
  from assms obtain evs where e: "trace q = trace p @ evs" and l: "list_all plain evs"
    by (auto simp: adds_only_def)
  from l have "filter is_dprintf evs = []" "filter is_usr1_install evs = []"
    by (induction evs) (auto simp: plain_def)
  with e show "filter is_dprintf (trace q) = filter is_dprintf (trace p)"
    and "filter is_usr1_install (trace q) = filter is_usr1_install (trace p)"
    by simp_all
qed

lemma dprintf_all_adds:
  "adds_only (\<lambda>e. \<not> is_usr1_install e) p (snd (dprintf_all E fd k ss p))"
proof (induction ss arbitrary: k p)
  case Nil
  then show ?case by simp
next
  case (Cons s ss)
  show ?case
  proof (cases "dprintf_ok E k")
    case True
    have "adds_only (\<lambda>e. \<not> is_usr1_install e) p (emit (Dprintf fd s) p)"
      by (simp add: adds_only_emit)
    from adds_only_trans [OF this Cons.IH] True show ?thesis by simp
  next
    case False
    then show ?thesis by (simp add: adds_only_def)
  qed
qed

lemma report_adds:
  "adds_only (\<lambda>e. \<not> is_usr1_install e) p (snd (report E fd start w st p))"
proof -
  let ?p3 = "emit Getrusage (if w < 0 then perror ''error waiting for command'' (emit Clock_gettime p)
                      else emit Clock_gettime p)"
  have a: "adds_only (\<lambda>e. \<not> is_usr1_install e) p ?p3"
    by (simp add: adds_only_def)
  show ?thesis
  proof (cases "getrusage_result E")
    case None
    with a show ?thesis
      by (simp add: report_def Let_def adds_only_def)
  next
    case (Some ru)
    with adds_only_trans [OF a dprintf_all_adds] show ?thesis
      by (simp add: report_def Let_def)
  qed
qed

lemma report_Return0:
  assumes "report E fd start w st p = (Return 0, p')"
  shows "\<exists>ru. getrusage_result E = Some ru \<and> timed_out p' = timed_out p \<and>
     trace p' = trace p @ [Clock_gettime] @
       (if w < 0 then [Perror ''error waiting for command''] else []) @ [Getrusage] @
       map (Dprintf fd)
         (record_chunks (timed_out p) (fst (classify w st)) (snd (classify w st)) ru
            (wrap64 (TIMESPEC (clock_end E) - TIMESPEC start)))"
proof (cases "getrusage_result E")
  case None
  with assms show ?thesis by (simp add: report_def Let_def)
next
  case (Some ru)
  with assms dprintf_all_Return0 show ?thesis
    by (fastforce simp: report_def Let_def)
qed

section \<open>A signal sent after the child was reaped\<close>

lemma env_late_usr1_simps:
  "fd_open env_late_usr1 5" "sigprocmask_ok env_late_usr1" "\<not> waitpid_error env_late_usr1"
  "before_fork env_late_usr1 = []" "before_block env_late_usr1 = []"
  "after_reap env_late_usr1 = [Sig SIGUSR1 SIGTERM]"
  "clock_start env_late_usr1 = Some \<lparr>tv_sec = 0, tv_nsec = 5\<rparr>"
  "fork_result env_late_usr1 = 4242"
  "rounds env_late_usr1 = [\<lparr>gap = [], susp = [Child_exits (WExited 0)]\<rparr>]"
  "getrusage_result env_late_usr1 = Some rusage0" "dprintf_ok env_late_usr1 i"
  "inherited_mask env_late_usr1 = {}" "uninit_status env_late_usr1 = WContinued"
  by (simp_all add: env_late_usr1_def env0_def)

text \<open>
  Claim C6.  \<open>block_cleanup_and_chld\<close> blocks the six cleanup signals and \<^verbatim>\<open>SIGCHLD\<close>
  but not \<^verbatim>\<open>SIGUSR1\<close>, whose handler also signals the child.  In the run of
  \<open>env_late_usr1\<close> the child exits, \<^verbatim>\<open>waitpid\<close> reaps it, and the \<^verbatim>\<open>SIGUSR1\<close> that
  arrives next makes \<open>handle_usr1\<close> send \<^verbatim>\<open>SIGTERM\<close> to the pid that was already
  reaped; the run then completes with status 0.
\<close>

theorem usr1_signals_after_reap:
  "fst (main env_late_usr1 [''wrapper'', ''5'', ''1'']) = Return 0 \<and>
   filter kill_or_reap (trace (snd (main env_late_usr1 [''wrapper'', ''5'', ''1'']))) =
     [Waitpid 4242 4242, Kill 4242 SIGTERM]"
proof -
  have p5: "parse_int ''5'' = Inr 5" and p1: "parse_int ''1'' = Inr 1"
    by (simp_all add: parse_int_def wrap32_def char_val_def)
  have d: "\<forall>i<length (record_chunks f ty v rusage0 real). dprintf_ok env_late_usr1 (0 + i)"
    for f ty v real
    by (simp add: env_late_usr1_simps)
  have m: "main env_late_usr1 [''wrapper'', ''5'', ''1''] =
      supervise env_late_usr1 5
        (emit (Fcntl_getfd 5) ((init_proc env_late_usr1)\<lparr>timeout_secs := 1\<rparr>))"
    by (simp add: main_def p5 p1 Let_def MAX_TIMEOUT_SECS_def env_late_usr1_simps)
  have i: "foreground (init_proc env_late_usr1) = False"
    "term_signal (init_proc env_late_usr1) = SIGKILL"
    "pending (init_proc env_late_usr1) = []" "trace (init_proc env_late_usr1) = []"
    "blocked (init_proc env_late_usr1) = {}" "handled (init_proc env_late_usr1) = 0"
    "disposition (init_proc env_late_usr1) = (\<lambda>sig. SIG_DFL)"
    by (simp_all add: init_proc_def env_late_usr1_simps)
  show ?thesis
    unfolding m using i
    by (simp add: env_late_usr1_simps supervise_def startup_def Let_def install_sigchld_def
          unblock_signal_def flush_def parent_side_def parent_setup_def
          block_cleanup_and_chld_def waitpid_def sigsuspend_def arrive_def deliver_def
          run_handler_def chld_def handle_usr1_def kill_child child_after_signal_def
          disposition_install_cleanup catchable_def signal_numbers
          report_def dprintf_all_ok [OF d] settimeout_trace)
qed

section \<open>Overflow in the parser\<close>

text \<open>
  Claim C10.  The parser rejects the empty string, a string with a non-digit and a
  string that starts with \<open>0\<close> (\<open>parse_int_not_numeric\<close>, \<open>parse_int_accepts\<close>), but
  a parsed value of 0 is still reachable: the ten-digit argument \<open>4294967296\<close> is
  accepted and, \<^verbatim>\<open>value\<close> wrapping around in 32 bits, yields descriptor 0.
\<close>

theorem parse_int_wraps_to_zero: "parse_int ''4294967296'' = Inr 0"
  by (simp add: parse_int_def char_val_def wrap32_def)

section \<open>The run in which the deadline expires\<close>

text \<open>
  What was written to a descriptor is the concatenation of the \<^verbatim>\<open>dprintf\<close> calls on it; the
  fifteen calls of \<open>report\<close> together make one line of JSON.
\<close>

lemma concat_record_chunks:
  "concat (record_chunks f ty v ru real) = json_line (record_fields f ty v ru real)"
  by (simp add: record_chunks_def json_line_def record_fields_def)

lemma fd_output_append [simp]: "fd_output fd (xs @ ys) = fd_output fd xs @ fd_output fd ys"
  by (simp add: fd_output_def)

lemma fd_output_Nil [simp]: "fd_output fd [] = []"
  by (simp add: fd_output_def)

lemma fd_output_Cons:
  "fd_output fd (e # es) =
     (case e of Dprintf d s \<Rightarrow> (if d = fd then s else []) | _ \<Rightarrow> []) @ fd_output fd es"
  by (simp add: fd_output_def)

lemma fd_output_Dprintfs [simp]: "fd_output fd (map (Dprintf fd) ss) = concat ss"
  by (induction ss) (simp_all add: fd_output_def)

lemma fd_output_Dprintfs_other: "d \<noteq> fd \<Longrightarrow> fd_output d (map (Dprintf fd) ss) = []"
  by (induction ss) (simp_all add: fd_output_def)

lemma fd_output_no_dprintf: "filter is_dprintf tr = [] \<Longrightarrow> fd_output d tr = []"
proof (induction tr)
  case Nil
  then show ?case by (simp add: fd_output_def)
next
  case (Cons e tr)
  then show ?case
    by (cases e) (auto simp: fd_output_def split: if_splits)
qed

lemma env0_simps:
  "fd_open env0 5" "sigprocmask_ok env0" "\<not> waitpid_error env0"
  "before_fork env0 = []" "before_block env0 = []" "after_reap env0 = []"
  "clock_start env0 = Some \<lparr>tv_sec = 0, tv_nsec = 5\<rparr>"
  "clock_end env0 = \<lparr>tv_sec = 0, tv_nsec = 1505\<rparr>"
  "fork_result env0 = 4242"
  "rounds env0 = [\<lparr>gap = [], susp = [Sig SIGALRM 0]\<rparr>]"
  "getrusage_result env0 = Some rusage0" "dprintf_ok env0 i"
  "inherited_mask env0 = {}" "uninit_status env0 = WContinued"
  by (simp_all add: env0_def)

lemma real_env0:
  "wrap64 (TIMESPEC \<lparr>tv_sec = 0, tv_nsec = 1505\<rparr> - TIMESPEC \<lparr>tv_sec = 0, tv_nsec = 5\<rparr>) = 1500"
  by (simp add: TIMESPEC_def wrap64_def)

lemma parse_args0: "parse_int ''5'' = Inr 5" "parse_int ''1'' = Inr 1"
  by (simp_all add: parse_int_def wrap32_def char_val_def)

text \<open>
  A run that does complete: the arguments are valid, every call succeeds, and the first
  thing to arrive in the reap loop is \<^verbatim>\<open>SIGALRM\<close>, while the child is still running.
  The only signal the supervisor sends is \<^verbatim>\<open>SIGKILL\<close> to the child, which it then
  reaps; \<^verbatim>\<open>main\<close> returns 0.
\<close>

lemma deadline_first_signal:
  assumes "parse_int a1 = Inr fd" and "parse_int a2 = Inr t" and "1 \<le> t" and "t \<le> 60"
    and "fd_open E fd" and "sigprocmask_ok E" and "\<not> waitpid_error E"
    and "before_fork E = []" and "before_block E = []" and "after_reap E = []"
    and "clock_start E = Some start" and "0 < fork_result E"
    and "rounds E = \<lparr>gap = [], susp = [Sig SIGALRM x]\<rparr> # rest"
    and "getrusage_result E = Some ru" and "\<forall>i<15. dprintf_ok E i"
  shows "fst (main E [a0, a1, a2]) = Return 0 \<and>
     (Timer_settime t \<in> set (trace (snd (main E [a0, a1, a2]))) \<or>
      Alarm t \<in> set (trace (snd (main E [a0, a1, a2])))) \<and>
     filter kill_or_reap (trace (snd (main E [a0, a1, a2]))) =
       [Kill (fork_result E) SIGKILL, Waitpid (fork_result E) (fork_result E)] \<and>
     fd_output fd (trace (snd (main E [a0, a1, a2]))) =
       json_line (record_fields 1 ''killed'' SIGKILL ru
                    (wrap64 (TIMESPEC (clock_end E) - TIMESPEC start))) \<and>
     take 3 (record_fields 1 ''killed'' SIGKILL ru
               (wrap64 (TIMESPEC (clock_end E) - TIMESPEC start))) =
       [(''timed_out'', ''true''), (''status_type'', quoted ''killed''), (''status_value'', ''9'')]"
proof -
  have d: "\<forall>i<length (record_chunks f ty v ru real). dprintf_ok E (0 + i)" for f ty v real
    using assms by simp
  have m: "main E [a0, a1, a2] =
      supervise E fd (emit (Fcntl_getfd fd) ((init_proc E)\<lparr>timeout_secs := t\<rparr>))"
    using assms by (simp add: main_def Let_def MAX_TIMEOUT_SECS_def)
  have i: "foreground (init_proc E) = False" "term_signal (init_proc E) = SIGKILL"
    "pending (init_proc E) = []" "trace (init_proc E) = []" "timed_out (init_proc E) = 0"
    by (simp_all add: init_proc_def)
  have c: "catchable SIGALRM" "catchable SIGCHLD" "catchable SIGUSR1" "catchable SIGTTIN"
    "catchable SIGTTOU" "SIGALRM \<noteq> SIGCHLD" "SIGALRM \<noteq> SIGUSR1" "SIGALRM \<noteq> SIGTTIN"
    "SIGALRM \<noteq> SIGTTOU"
    by (simp_all add: catchable_def signal_numbers)
  have u: "to_unsigned t = t"
    using assms by (simp add: to_unsigned_def)
  have f: "take 3 (record_fields 1 ''killed'' SIGKILL ru real) =
       [(''timed_out'', ''true''), (''status_type'', quoted ''killed''), (''status_value'', ''9'')]"
    for real
    by (simp add: record_fields_def SIGKILL_def show_int_9)
  have r: "fst (main E [a0, a1, a2]) = Return 0 \<and>
     (Timer_settime t \<in> set (trace (snd (main E [a0, a1, a2]))) \<or>
      Alarm t \<in> set (trace (snd (main E [a0, a1, a2])))) \<and>
     filter kill_or_reap (trace (snd (main E [a0, a1, a2]))) =
       [Kill (fork_result E) SIGKILL, Waitpid (fork_result E) (fork_result E)] \<and>
     fd_output fd (trace (snd (main E [a0, a1, a2]))) =
       concat (record_chunks 1 ''killed'' SIGKILL ru
                    (wrap64 (TIMESPEC (clock_end E) - TIMESPEC start)))"
    unfolding m using assms(5-14) i c u
    by (simp add: supervise_def startup_def Let_def install_sigchld_def unblock_signal_def
       flush_def parent_side_def parent_setup_def block_cleanup_and_chld_def waitpid_def
       sigsuspend_def arrive_def deliver_def run_handler_def chld_def cleanup_def
       send_sig_def kill_child child_after_signal_def disposition_install_cleanup
       reap_loop_zombie report_def dprintf_all_ok [OF d] settimeout_trace classify_def
       fd_output_Cons)
  with f show ?thesis
    by (simp add: concat_record_chunks)
qed

section \<open>Every run of \<open>main\<close>\<close>

text \<open>
  The runs of \<^verbatim>\<open>main\<close> are split by where they end: before \<^verbatim>\<open>fork\<close>, in the child, in
  the set-up of the parent, or in \<open>report\<close>.  Up to \<open>report\<close> nothing is written to a
  descriptor, and the handler of \<^verbatim>\<open>SIGUSR1\<close> is installed at one place only.
\<close>

lemma adds_only_filter:
  assumes "adds_only ok p q" and "\<And>e. ok e \<Longrightarrow> \<not> P e"
  shows "filter P (trace q) = filter P (trace p)"
proof -
  from assms(1) obtain evs where e: "trace q = trace p @ evs" and l: "list_all ok evs"
    by (auto simp: adds_only_def)
  from l assms(2) have "filter P evs = []"
    by (induction evs) auto
  with e show ?thesis by simp
qed

lemma quiet_not_dprintf: "quiet e \<Longrightarrow> \<not> is_dprintf e"
  by (cases e) simp_all

lemma quiet_not_usr1: "quiet e \<Longrightarrow> \<not> is_usr1_install e"
  by (cases e) simp_all

lemma quiet_ext_nd: "quiet_ext p q \<Longrightarrow> adds_only (\<lambda>e. \<not> is_dprintf e) p q"
  by (rule adds_only_mono [OF quiet_ext_adds_only]) (simp_all add: quiet_not_dprintf)

lemma quiet_ext_nu: "quiet_ext p q \<Longrightarrow> adds_only (\<lambda>e. \<not> is_usr1_install e) p q"
  by (rule adds_only_mono [OF quiet_ext_adds_only]) (simp_all add: quiet_not_usr1)

lemma sigaction_nd: "adds_only (\<lambda>e. \<not> is_dprintf e) q (snd (sigaction sg h q))"
  by (simp add: adds_only_def)

lemma parent_setup_cases:
  assumes "parent_setup E p = (out, p')"
  shows "(\<forall>n. out \<noteq> Some (Return n)) \<and>
     ((out \<noteq> None \<and> quiet_ext p p') \<or>
      (\<exists>q. quiet_ext p q \<and> quiet_ext (snd (sigaction SIGUSR1 H_handle_usr1 q)) p'))"
proof -
  obtain o0 q0 where u: "unblock_signal E SIGALRM p = (o0, q0)"
    by (cases "unblock_signal E SIGALRM p")
  with quiet_step_unblock_signal [of p E SIGALRM]
  have q0: "quiet_ext p q0" and n0: "\<forall>n. o0 \<noteq> Some (Return n)"
    by (simp_all add: quiet_step_def)
  show ?thesis
  proof (cases o0)
    case (Some x)
    with u assms q0 n0 show ?thesis
      by (auto simp: parent_setup_def)
  next
    case None
    let ?r = "sigaction SIGUSR1 H_handle_usr1 q0"
    let ?p1 = "if fst ?r < 0 then perror ''sigaction'' (snd ?r) else snd ?r"
    have a: "quiet_ext (snd ?r) ?p1"
      by (simp add: quiet_ext_def)
    have b: "quiet_ext ?p1 (settimeout E True ?p1)"
      by (rule quiet_ext_settimeout)
    have c: "quiet_step (settimeout E True ?p1)
               (arrive_all E (before_block E) (settimeout E True ?p1))"
      by (rule quiet_step_arrive_all)
    from u None assms have e: "arrive_all E (before_block E) (settimeout E True ?p1) = (out, p')"
      by (simp add: parent_setup_def Let_def)
    from c e have "quiet_ext (settimeout E True ?p1) p'" and n: "\<forall>n. out \<noteq> Some (Return n)"
      by (simp_all add: quiet_step_def)
    with a b have "quiet_ext (snd ?r) p'"
      by (blast intro: quiet_ext_trans)
    with q0 n show ?thesis by blast
  qed
qed

lemma parent_side_cases:
  assumes "parent_side E fd start p = (out, p')"
  shows "(out \<noteq> Return 0 \<and> quiet_ext p p') \<or>
     (\<exists>q. quiet_ext p q \<and>
          adds_only (\<lambda>e. \<not> is_usr1_install e) (snd (sigaction SIGUSR1 H_handle_usr1 q)) p')"
    and "out = Return 0 \<Longrightarrow>
     \<exists>q4 w st. adds_only (\<lambda>e. \<not> is_dprintf e) p q4 \<and> report E fd start w st q4 = (Return 0, p')"
proof -
  obtain o1 p1 where s: "parent_setup E p = (o1, p1)"
    by (cases "parent_setup E p")
  note c1 = parent_setup_cases [OF s]
  obtain cs p2 where b: "block_cleanup_and_chld E (term_signal p1) p1 = (cs, p2)"
    by (cases "block_cleanup_and_chld E (term_signal p1) p1")
  with quiet_ext_block [of p1 E "term_signal p1"] have e2: "quiet_ext p1 p2" by simp
  obtain o3 ws p3 where l: "reap_loop E cs (rounds E) (uninit_status E) p2 = (o3, ws, p3)"
    by (cases "reap_loop E cs (rounds E) (uninit_status E) p2") auto
  with quiet_reap_loop [of p2 E cs "rounds E" "uninit_status E"]
  have e3: "quiet_ext p2 p3" and n3: "\<forall>n. o3 \<noteq> Some (Return n)" by simp_all
  obtain o4 p4 where a: "arrive_all E (after_reap E) p3 = (o4, p4)"
    by (cases "arrive_all E (after_reap E) p3")
  with quiet_step_arrive_all [of p3 E "after_reap E"]
  have e4: "quiet_ext p3 p4" and n4: "\<forall>n. o4 \<noteq> Some (Return n)"
    by (simp_all add: quiet_step_def)
  have e14: "quiet_ext p1 p4"
    using e2 e3 e4 by (blast intro: quiet_ext_trans)
  have e13: "quiet_ext p1 p3"
    using e2 e3 by (blast intro: quiet_ext_trans)
  have res: "(out, p') =
     (case o1 of Some x \<Rightarrow> (x, p1) | None \<Rightarrow>
        (case o3 of Some x \<Rightarrow> (x, p3) | None \<Rightarrow>
           (case o4 of Some x \<Rightarrow> (x, p4) | None \<Rightarrow> report E fd start (fst ws) (snd ws) p4)))"
    using assms s b l a by (simp add: parent_side_def split: option.splits)
  show "(out \<noteq> Return 0 \<and> quiet_ext p p') \<or>
     (\<exists>q. quiet_ext p q \<and>
          adds_only (\<lambda>e. \<not> is_usr1_install e) (snd (sigaction SIGUSR1 H_handle_usr1 q)) p')"
  proof (cases o1)
    case (Some x)
    with res c1 show ?thesis
      by (auto intro: quiet_ext_nu)
  next
    case None
    with c1 obtain q where q: "quiet_ext p q"
      and qq: "quiet_ext (snd (sigaction SIGUSR1 H_handle_usr1 q)) p1"
      by auto
    have "adds_only (\<lambda>e. \<not> is_usr1_install e) (snd (sigaction SIGUSR1 H_handle_usr1 q)) p'"
    proof (cases o3)
      case (Some x)
      with res None have "p' = p3" by simp
      with qq e13 show ?thesis by (blast intro: quiet_ext_nu quiet_ext_trans)
    next
      case n3: None
      show ?thesis
      proof (cases o4)
        case (Some x)
        with res None n3 have "p' = p4" by simp
        with qq e14 show ?thesis by (blast intro: quiet_ext_nu quiet_ext_trans)
      next
        case n4: None
        with res None n3 have "p' = snd (report E fd start (fst ws) (snd ws) p4)"
          by (metis snd_conv option.simps(4))
        with report_adds [of p4 E fd start "fst ws" "snd ws"]
        have "adds_only (\<lambda>e. \<not> is_usr1_install e) p4 p'" by simp
        moreover have "adds_only (\<lambda>e. \<not> is_usr1_install e)
            (snd (sigaction SIGUSR1 H_handle_usr1 q)) p4"
          using qq e14 by (blast intro: quiet_ext_nu quiet_ext_trans)
        ultimately show ?thesis by (rule adds_only_trans [rotated])
      qed
    qed
    with q show ?thesis by blast
  qed
  show "\<exists>q4 w st. adds_only (\<lambda>e. \<not> is_dprintf e) p q4 \<and> report E fd start w st q4 = (Return 0, p')"
    if r0: "out = Return 0"
  proof -
    from r0 res c1 n3 n4 have o: "o1 = None" "o3 = None" "o4 = None"
      by (auto split: option.splits)
    with res r0 have rep: "report E fd start (fst ws) (snd ws) p4 = (Return 0, p')" by simp
    from o c1 obtain q where q: "quiet_ext p q"
      and qq: "quiet_ext (snd (sigaction SIGUSR1 H_handle_usr1 q)) p1"
      by auto
    from qq e14 have "adds_only (\<lambda>e. \<not> is_dprintf e) (snd (sigaction SIGUSR1 H_handle_usr1 q)) p4"
      by (blast intro: quiet_ext_nd quiet_ext_trans)
    with sigaction_nd [of q SIGUSR1 H_handle_usr1] quiet_ext_nd [OF q]
    have "adds_only (\<lambda>e. \<not> is_dprintf e) p p4"
      by (blast intro: adds_only_trans)
    with rep show ?thesis by blast
  qed
qed

lemma startup_cases:
  assumes "term_signal q = SIGKILL" and "startup E q = (o5, p5)"
  shows "adds_only plain q p5 \<and> (\<forall>n. o5 \<noteq> Some (Return n))"
proof -
  let ?p1 = "q\<lparr>preserve_status := True\<rparr>"
  let ?p2 = "if \<not> foreground ?p1 then emit (Setpgid 0 0) ?p1 else ?p1"
  let ?p4 = "signal SIGTTOU SIG_IGN (signal SIGTTIN SIG_IGN (install_cleanup (term_signal ?p2) ?p2))"
  let ?s0 = "snd (sigaction SIGCHLD H_chld ?p4)"
  have a: "adds_only plain q ?s0"
    using assms(1) by (simp add: adds_only_def plain_def signal_numbers)
  have qs: "quiet_step ?s0 (and_then (unblock_signal E SIGCHLD ?s0) (arrive_all E (before_fork E)))"
    by (rule quiet_step_and_then [OF quiet_step_unblock_signal]) (rule quiet_step_arrive_all)
  have "startup E q = and_then (unblock_signal E SIGCHLD ?s0) (arrive_all E (before_fork E))"
    by (simp add: startup_def Let_def install_sigchld_def)
  with assms(2) have "and_then (unblock_signal E SIGCHLD ?s0) (arrive_all E (before_fork E)) = (o5, p5)"
    by simp
  with qs have "quiet_step ?s0 (o5, p5)" by simp
  then have "quiet_ext ?s0 p5" and n: "\<forall>n. o5 \<noteq> Some (Return n)"
    by (simp_all add: quiet_step_def)
  with a show ?thesis
    by (blast intro: adds_only_trans quiet_ext_plain)
qed

lemma plain_filters:
  assumes "adds_only plain p q"
  shows "filter is_dprintf (trace q) = filter is_dprintf (trace p)"
    and "filter is_usr1_install (trace q) = filter is_usr1_install (trace p)"
  using adds_only_filter [OF assms, of is_dprintf] adds_only_filter [OF assms, of is_usr1_install]
  by (simp_all add: plain_def)

lemma supervise_cases:
  assumes "term_signal q = SIGKILL" and "supervise E fd q = (out, p')"
  shows "(out \<noteq> Return 0 \<and> filter is_usr1_install (trace p') = filter is_usr1_install (trace q)) \<or>
     (\<exists>start pf tr. clock_start E = Some start \<and> fork_result E \<noteq> 0 \<and> fork_result E \<noteq> -1 \<and>
        monitored_pid pf = fork_result E \<and> trace pf = tr @ [Fork (fork_result E)] \<and>
        filter is_usr1_install tr = filter is_usr1_install (trace q) \<and>
        filter is_dprintf tr = filter is_dprintf (trace q) \<and>
        parent_side E fd start pf = (out, p'))"
proof -
  obtain o5 p5 where s: "startup E q = (o5, p5)" by (cases "startup E q")
  from startup_cases [OF assms(1) s] have pl: "adds_only plain q p5"
    and n5: "\<forall>n. o5 \<noteq> Some (Return n)" by simp_all
  note f = plain_filters [OF pl]
  show ?thesis
  proof (cases o5)
    case (Some x)
    with s assms(2) n5 f show ?thesis
      by (auto simp: supervise_def)
  next
    case None
    show ?thesis
    proof (cases "clock_start E")
      case n: None
      with s None assms(2) f show ?thesis
        by (auto simp: supervise_def)
    next
      case (Some start)
      let ?p6 = "(emit (Fork (fork_result E)) (emit Clock_gettime p5))\<lparr>monitored_pid := fork_result E\<rparr>"
      consider (fail) "fork_result E = -1" | (child) "fork_result E = 0"
        | (parent) "fork_result E \<noteq> -1" "fork_result E \<noteq> 0" by blast
      then show ?thesis
      proof cases
        case fail
        with s None Some assms(2) f show ?thesis
          by (auto simp: supervise_def Let_def)
      next
        case child
        with s None Some assms(2) f show ?thesis
          by (auto simp: supervise_def Let_def child_side_def split: if_splits)
      next
        case parent
        with s None Some assms(2)
        have "parent_side E fd start (?p6\<lparr>child := Running\<rparr>) = (out, p')"
          by (simp add: supervise_def Let_def)
        moreover have "trace (?p6\<lparr>child := Running\<rparr>) = (trace p5 @ [Clock_gettime]) @ [Fork (fork_result E)]"
          by simp
        moreover have "filter is_usr1_install (trace p5 @ [Clock_gettime]) = filter is_usr1_install (trace q)"
          "filter is_dprintf (trace p5 @ [Clock_gettime]) = filter is_dprintf (trace q)"
          using f by simp_all
        moreover have "monitored_pid (?p6\<lparr>child := Running\<rparr>) = fork_result E" by simp
        ultimately show ?thesis
          using Some parent by blast
      qed
    qed
  qed
qed

lemma main_cases:
  assumes "main E argv = (out, p')"
  shows "(out \<noteq> Return 0 \<and> filter is_usr1_install (trace p') = []) \<or>
     (\<exists>fd q. parse_int (argv ! 1) = Inr fd \<and> term_signal q = SIGKILL \<and>
        trace q = [Fcntl_getfd fd] \<and> supervise E fd q = (out, p'))"
proof (cases "length argv = 3")
  case False
  with assms show ?thesis
    by (auto simp: main_def Let_def init_proc_def)
next
  case True
  show ?thesis
  proof (cases "parse_int (argv ! 1)")
    case (Inl e)
    with True assms show ?thesis
      by (auto simp: main_def Let_def init_proc_def)
  next
    case (Inr fd)
    show ?thesis
    proof (cases "parse_int (argv ! 2)")
      case (Inl e)
      with True Inr assms show ?thesis
        by (auto simp: main_def Let_def init_proc_def)
    next
      case r2: (Inr t)
      let ?q = "emit (Fcntl_getfd fd) ((init_proc E)\<lparr>timeout_secs := t\<rparr>)"
      have q: "term_signal ?q = SIGKILL" "trace ?q = [Fcntl_getfd fd]"
        by (simp_all add: init_proc_def)
      from True Inr r2 assms
      have "(out \<noteq> Return 0 \<and> filter is_usr1_install (trace p') = []) \<or>
            supervise E fd ?q = (out, p')"
        by (auto simp: main_def Let_def init_proc_def EBADF_def split: if_splits)
      with Inr q show ?thesis by blast
    qed
  qed
qed

lemma main_env0:
  "fst (main env0 [''wrapper'', ''5'', ''1'']) = Return 0"
  "filter is_usr1_install (trace (snd (main env0 [''wrapper'', ''5'', ''1'']))) =
     [Sigaction SIGUSR1 H_handle_usr1]"
  "filter is_fork (trace (snd (main env0 [''wrapper'', ''5'', ''1'']))) = [Fork 4242]"
proof -
  have d: "\<forall>i<length (record_chunks f ty v rusage0 real). dprintf_ok env0 (0 + i)"
    for f ty v real
    by (simp add: env0_simps)
  have m: "main env0 [''wrapper'', ''5'', ''1''] =
      supervise env0 5 (emit (Fcntl_getfd 5) ((init_proc env0)\<lparr>timeout_secs := 1\<rparr>))"
    by (simp add: main_def parse_args0 Let_def MAX_TIMEOUT_SECS_def env0_simps)
  have i: "foreground (init_proc env0) = False"
    "term_signal (init_proc env0) = SIGKILL"
    "pending (init_proc env0) = []" "trace (init_proc env0) = []"
    "blocked (init_proc env0) = {}" "handled (init_proc env0) = 0"
    "disposition (init_proc env0) = (\<lambda>sig. SIG_DFL)"
    by (simp_all add: init_proc_def env0_simps)
  have r: "fst (main env0 [''wrapper'', ''5'', ''1'']) = Return 0 \<and>
    filter is_usr1_install (trace (snd (main env0 [''wrapper'', ''5'', ''1'']))) =
     [Sigaction SIGUSR1 H_handle_usr1] \<and>
    filter is_fork (trace (snd (main env0 [''wrapper'', ''5'', ''1'']))) = [Fork 4242]"
    unfolding m using i
    by (simp add: env0_simps supervise_def startup_def Let_def install_sigchld_def
          unblock_signal_def flush_def parent_side_def parent_setup_def
          block_cleanup_and_chld_def waitpid_def sigsuspend_def arrive_def deliver_def
          run_handler_def chld_def cleanup_def send_sig_def kill_child child_after_signal_def
          disposition_install_cleanup catchable_def signal_numbers reap_loop_zombie
          report_def dprintf_all_ok [OF d] settimeout_trace to_unsigned_def)
  from r show "fst (main env0 [''wrapper'', ''5'', ''1'']) = Return 0"
    by blast
  from r show "filter is_usr1_install (trace (snd (main env0 [''wrapper'', ''5'', ''1'']))) =
     [Sigaction SIGUSR1 H_handle_usr1]"
    by blast
  from r show "filter is_fork (trace (snd (main env0 [''wrapper'', ''5'', ''1'']))) = [Fork 4242]"
    by blast
qed

lemma main_env0_output:
  "fd_output 5 (trace (snd (main env0 [''wrapper'', ''5'', ''1'']))) =
     json_line (record_fields 1 ''killed'' SIGKILL rusage0 1500)"
  "filter kill_or_reap (trace (snd (main env0 [''wrapper'', ''5'', ''1'']))) =
     [Kill 4242 SIGKILL, Waitpid 4242 4242]"
proof -
  have h: "(1::int) \<le> 1" "(1::int) \<le> 60" "(0::int) < fork_result env0"
    "\<forall>i<15. dprintf_ok env0 i"
    by (simp_all add: env0_simps)
  note r = deadline_first_signal [where E = env0 and ?a0.0 = "''wrapper''",
      OF parse_args0(1) parse_args0(2) h(1) h(2) env0_simps(1) env0_simps(2) env0_simps(3)
      env0_simps(4) env0_simps(5) env0_simps(6) env0_simps(7) h(3) env0_simps(10)
      env0_simps(11) h(4)]
  from r show "fd_output 5 (trace (snd (main env0 [''wrapper'', ''5'', ''1'']))) =
     json_line (record_fields 1 ''killed'' SIGKILL rusage0 1500)"
    by (simp add: env0_simps real_env0)
  from r show "filter kill_or_reap (trace (snd (main env0 [''wrapper'', ''5'', ''1'']))) =
     [Kill 4242 SIGKILL, Waitpid 4242 4242]"
    by (simp add: env0_simps)
qed

lemmas render =
  json_line_def record_fields_def rusage0_def TIMEVAL_def wrap64_def quoted_def show_int_def
  digits.simps digit_char_def


section \<open>The record\<close>

text \<open>
  \<open>show_int\<close> writes the decimal notation of its argument.
\<close>

lemma digit_char_props:
  assumes "d < 10"
  shows "is_digit (digit_char d)" "digit_value (digit_char d) = d"
    "(digit_char d = CHR ''0'') = (d = 0)"
proof -
  from assms have "d \<in> {0, 1, 2, 3, 4, 5, 6, 7, 8, 9}" by auto
  then show "is_digit (digit_char d)" "digit_value (digit_char d) = d"
    "(digit_char d = CHR ''0'') = (d = 0)"
    by (auto simp: digit_char_def is_digit_def digit_value_def char_val_def)
qed

lemma decimal_value_snoc: "decimal_value (s @ [c]) = 10 * decimal_value s + digit_value c"
  by (simp add: decimal_value_def)

lemma digits_props:
  "digits n \<noteq> [] \<and> list_all is_digit (digits n) \<and> decimal_value (digits n) = n \<and>
   ((hd (digits n) = CHR ''0'') = (n = 0))"
proof (induction n rule: digits.induct)
  case (1 n)
  show ?case
  proof (cases "n < 10")
    case True
    with digit_char_props [of n] show ?thesis
      by (subst (1 2 3 4) digits.simps) (simp add: decimal_value_def)
  next
    case False
    have m: "n mod 10 < 10" by simp
    from False have "n div 10 \<noteq> 0" by simp
    with 1 [OF False] digit_char_props [OF m] False show ?thesis
      by (subst (1 2 3 4) digits.simps) (simp add: decimal_value_snoc)
  qed
qed

lemma canonical_digits_digits: "canonical_digits (digits n)"
proof -
  have "length (digits n) = 1" if "hd (digits n) = CHR ''0''"
  proof -
    from that digits_props [of n] have "n = 0" by simp
    then show ?thesis by (simp add: digits.simps)
  qed
  with digits_props [of n] show ?thesis
    by (simp add: canonical_digits_def)
qed

lemma decimal_of_show_int: "decimal_of i (show_int i)"
  using canonical_digits_digits [of "nat i"] canonical_digits_digits [of "nat (- i)"]
    digits_props [of "nat i"] digits_props [of "nat (- i)"]
  by (simp add: decimal_of_def show_int_def canonical_digits_def is_digit_def char_val_def)

declare digits.simps [simp del]

lemma digit_char_in: "d < 10 \<Longrightarrow> digit_char d \<in> set ''0123456789''"
  using nth_mem [of d "''0123456789''"] by (simp add: digit_char_def)

lemma digits_chars: "set (digits n) \<subseteq> set ''0123456789''"
proof (induction n rule: digits.induct)
  case (1 n)
  show ?case
  proof (cases "n < 10")
    case True
    with digit_char_in [of n] show ?thesis
      by (subst digits.simps) simp
  next
    case False
    have "n mod 10 < 10" by simp
    from digit_char_in [OF this] 1 [OF False] False show ?thesis
      by (subst digits.simps) auto
  qed
qed

lemma show_int_no_newline [simp]: "CHR 0x0A \<notin> set (show_int i)"
  using digits_chars [of "nat i"] digits_chars [of "nat (- i)"]
  by (auto simp: show_int_def)

lemma classify_types:
  "fst (classify w st) \<in> {''exited'', ''killed'', ''core_dump'', ''unknown''}"
  by (simp add: classify_def)

lemma json_line_record_no_newline:
  assumes "CHR 0x0A \<notin> set ty"
  shows "\<exists>line. json_line (record_fields f ty v ru real) = line @ [CHR 0x0A] \<and> CHR 0x0A \<notin> set line"
proof -
  have "CHR 0x0A \<notin> set (''{'' @ json_fields (record_fields f ty v ru real) @ ''}'')"
    using assms by (simp add: record_fields_def quoted_def)
  then show ?thesis
    unfolding json_line_def by (metis append.assoc)
qed

lemma wrap64_id: "- 9223372036854775808 \<le> x \<Longrightarrow> x < 9223372036854775808 \<Longrightarrow> wrap64 x = x"
  by (simp add: wrap64_def)

lemma TIMEVAL_exact:
  assumes "0 \<le> tv_sec_val tv" "tv_sec_val tv < 4294967296" "0 \<le> tv_usec tv" "tv_usec tv < 1000000"
  shows "TIMEVAL tv = tv_sec_val tv * 1000000000 + tv_usec tv * 1000"
  using assms by (simp add: TIMEVAL_def wrap64_id)

lemma TIMESPEC_exact:
  assumes "0 \<le> tv_sec ts" "tv_sec ts < 4294967296" "0 \<le> tv_nsec ts" "tv_nsec ts < 1000000000"
  shows "TIMESPEC ts = tv_sec ts * 1000000000 + tv_nsec ts"
  using assms by (simp add: TIMESPEC_def wrap64_id)

lemma real_exact:
  assumes "0 \<le> tv_sec s" "tv_sec s < 4294967296" "0 \<le> tv_nsec s" "tv_nsec s < 1000000000"
    and "0 \<le> tv_sec e" "tv_sec e < 4294967296" "0 \<le> tv_nsec e" "tv_nsec e < 1000000000"
  shows "wrap64 (TIMESPEC e - TIMESPEC s) =
     (tv_sec e * 1000000000 + tv_nsec e) - (tv_sec s * 1000000000 + tv_nsec s)"
  using assms by (simp add: TIMESPEC_exact wrap64_id)

lemma filter_is_dprintf_map [simp]: "filter is_dprintf (map (Dprintf fd) ss) = map (Dprintf fd) ss"
  by (induction ss) simp_all

lemma fd_output_filter: "fd_output d tr = fd_output d (filter is_dprintf tr)"
proof (induction tr)
  case Nil
  then show ?case by simp
next
  case (Cons e tr)
  then show ?case by (cases e) (simp_all add: fd_output_Cons)
qed

lemma main_Return0:
  assumes "main E argv = (Return 0, p')"
  shows "\<exists>fd start ru w st.
     parse_int (argv ! 1) = Inr fd \<and> clock_start E = Some start \<and>
     getrusage_result E = Some ru \<and>
     filter is_dprintf (trace p') =
       map (Dprintf fd)
         (record_chunks (timed_out p') (fst (classify w st)) (snd (classify w st)) ru
            (wrap64 (TIMESPEC (clock_end E) - TIMESPEC start)))"
proof -
  from main_cases [OF assms] obtain fd q where fd: "parse_int (argv ! 1) = Inr fd"
    and q: "term_signal q = SIGKILL" "trace q = [Fcntl_getfd fd]"
    and s: "supervise E fd q = (Return 0, p')"
    by auto
  from supervise_cases [OF q(1) s] obtain start pf tr where st: "clock_start E = Some start"
    and tr: "trace pf = tr @ [Fork (fork_result E)]" "filter is_dprintf tr = filter is_dprintf (trace q)"
    and ps: "parent_side E fd start pf = (Return 0, p')"
    by auto
  from parent_side_cases(2) [OF ps] obtain q4 w st where
    a: "adds_only (\<lambda>e. \<not> is_dprintf e) pf q4" and r: "report E fd start w st q4 = (Return 0, p')"
    by auto
  from adds_only_filter [OF a, of is_dprintf] tr q
  have n: "filter is_dprintf (trace q4) = []" by simp
  from report_Return0 [OF r] obtain ru where ru: "getrusage_result E = Some ru"
    and t: "timed_out p' = timed_out q4"
    and e: "trace p' = trace q4 @ [Clock_gettime] @
       (if w < 0 then [Perror ''error waiting for command''] else []) @ [Getrusage] @
       map (Dprintf fd)
         (record_chunks (timed_out q4) (fst (classify w st)) (snd (classify w st)) ru
            (wrap64 (TIMESPEC (clock_end E) - TIMESPEC start)))"
    by auto
  from e n t have "filter is_dprintf (trace p') =
       map (Dprintf fd)
         (record_chunks (timed_out p') (fst (classify w st)) (snd (classify w st)) ru
            (wrap64 (TIMESPEC (clock_end E) - TIMESPEC start)))"
    by simp
  with fd st ru show ?thesis by blast
qed



section \<open>Forwarding \<^verbatim>\<open>SIGUSR1\<close>\<close>

lemma filter_usr1_quiet: "list_all quiet evs \<Longrightarrow> filter is_usr1_install evs = []"
  by (induction evs) (simp_all add: quiet_not_usr1)

lemma filter_usr1_not: "list_all (\<lambda>e. \<not> is_usr1_install e) evs \<Longrightarrow> filter is_usr1_install evs = []"
  by (induction evs) simp_all

lemma main_usr1_install:
  assumes "main E argv = (out, p')"
  shows "filter is_usr1_install (trace p') = [] \<or>
     (fork_result E \<noteq> 0 \<and> fork_result E \<noteq> - 1 \<and> monitored_pid p' = fork_result E \<and>
      (\<exists>tr1 tr2. trace p' = tr1 @ Sigaction SIGUSR1 H_handle_usr1 # tr2 \<and>
          Fork (fork_result E) \<in> set tr1 \<and>
          filter is_usr1_install tr1 = [] \<and> filter is_usr1_install tr2 = []))"
proof -
  from main_cases [OF assms] consider "filter is_usr1_install (trace p') = []"
    | fd q where "term_signal q = SIGKILL" "trace q = [Fcntl_getfd fd]"
        "supervise E fd q = (out, p')"
    by blast
  then show ?thesis
  proof cases
    case 1
    then show ?thesis by simp
  next
    case 2
    from supervise_cases [OF 2(1) 2(3)] 2(2)
    consider "filter is_usr1_install (trace p') = []"
      | start pf tr where "fork_result E \<noteq> 0" "fork_result E \<noteq> - 1"
          "monitored_pid pf = fork_result E" "trace pf = tr @ [Fork (fork_result E)]"
          "filter is_usr1_install tr = []" "parent_side E fd start pf = (out, p')"
      by auto
    then show ?thesis
    proof cases
      case 1
      then show ?thesis by simp
    next
      case 2
      from parent_side_cases(1) [OF 2(6)]
      consider "quiet_ext pf p'"
        | q0 where "quiet_ext pf q0"
            "adds_only (\<lambda>e. \<not> is_usr1_install e) (snd (sigaction SIGUSR1 H_handle_usr1 q0)) p'"
        by blast
      then show ?thesis
      proof cases
        case 1
        then obtain evs where "trace p' = trace pf @ evs" "list_all quiet evs"
          by (auto simp: quiet_ext_def)
        with 2(4,5) have "filter is_usr1_install (trace p') = []"
          by (simp add: filter_usr1_quiet)
        then show ?thesis by simp
      next
        case b: 2
        from b(1) obtain evs where e: "trace q0 = trace pf @ evs" "list_all quiet evs"
          and m: "monitored_pid q0 = monitored_pid pf"
          by (auto simp: quiet_ext_def)
        from b(2) obtain evs' where e': "trace p' = (trace q0 @ [Sigaction SIGUSR1 H_handle_usr1]) @ evs'"
          "list_all (\<lambda>e. \<not> is_usr1_install e) evs'"
          and m': "monitored_pid p' = monitored_pid q0"
          by (auto simp: adds_only_def)
        from e e' 2(4) have t: "trace p' = (tr @ [Fork (fork_result E)] @ evs) @
            Sigaction SIGUSR1 H_handle_usr1 # evs'"
          by simp
        have f1: "Fork (fork_result E) \<in> set (tr @ [Fork (fork_result E)] @ evs)"
          by simp
        have f2: "filter is_usr1_install (tr @ [Fork (fork_result E)] @ evs) = []"
          using 2(5) e(2) by (simp add: filter_usr1_quiet)
        have f3: "filter is_usr1_install evs' = []"
          using e'(2) by (rule filter_usr1_not)
        from t f1 f2 f3 m m' 2(1,2,3) show ?thesis
          by metis
      qed
    qed
  qed
qed

lemma handle_usr1_timed_out:
  "handle_usr1 E SIGUSR1 payload (p\<lparr>timed_out := f\<rparr>) =
     (None, (snd (handle_usr1 E SIGUSR1 payload p))\<lparr>timed_out := f\<rparr>)"
  by (simp add: handle_usr1_def kill_def emit_def Let_def split: option.splits)



section \<open>Classification of the wait status\<close>

text \<open>
  Two runs of \<^verbatim>\<open>main\<close> up to the record: the child terminates on its own while the
  supervisor is suspended, and \<^verbatim>\<open>waitpid\<close> fails.
\<close>

lemma main_child_exits:
  assumes "parse_int a1 = Inr fd" and "parse_int a2 = Inr t" and "1 \<le> t" and "t \<le> 60"
    and "fd_open E fd" and "sigprocmask_ok E" and "\<not> waitpid_error E"
    and "before_fork E = []" and "before_block E = []" and "after_reap E = []"
    and "clock_start E = Some start" and "0 < fork_result E"
    and "rounds E = \<lparr>gap = [], susp = [Child_exits st]\<rparr> # rest"
    and "getrusage_result E = Some ru" and "\<forall>i<15. dprintf_ok E i"
  shows "fst (main E [a0, a1, a2]) = Return 0 \<and>
     filter kill_or_reap (trace (snd (main E [a0, a1, a2]))) =
       [Waitpid (fork_result E) (fork_result E)] \<and>
     fd_output fd (trace (snd (main E [a0, a1, a2]))) =
       json_line (record_fields 0 (fst (classify (fork_result E) st))
                    (snd (classify (fork_result E) st)) ru
                    (wrap64 (TIMESPEC (clock_end E) - TIMESPEC start)))"
proof -
  have d: "\<forall>i<length (record_chunks f ty v ru real). dprintf_ok E (0 + i)" for f ty v real
    using assms by simp
  have m: "main E [a0, a1, a2] =
      supervise E fd (emit (Fcntl_getfd fd) ((init_proc E)\<lparr>timeout_secs := t\<rparr>))"
    using assms by (simp add: main_def Let_def MAX_TIMEOUT_SECS_def)
  have i: "foreground (init_proc E) = False" "term_signal (init_proc E) = SIGKILL"
    "pending (init_proc E) = []" "trace (init_proc E) = []" "timed_out (init_proc E) = 0"
    by (simp_all add: init_proc_def)
  have c: "catchable SIGALRM" "catchable SIGCHLD" "catchable SIGUSR1" "catchable SIGTTIN"
    "catchable SIGTTOU" "SIGALRM \<noteq> SIGCHLD" "SIGALRM \<noteq> SIGUSR1" "SIGALRM \<noteq> SIGTTIN"
    "SIGALRM \<noteq> SIGTTOU" "SIGCHLD \<noteq> SIGUSR1" "SIGCHLD \<noteq> SIGTTIN" "SIGCHLD \<noteq> SIGTTOU"
    by (simp_all add: catchable_def signal_numbers)
  have r: "fst (main E [a0, a1, a2]) = Return 0 \<and>
     filter kill_or_reap (trace (snd (main E [a0, a1, a2]))) =
       [Waitpid (fork_result E) (fork_result E)] \<and>
     fd_output fd (trace (snd (main E [a0, a1, a2]))) =
       concat (record_chunks 0 (fst (classify (fork_result E) st))
                    (snd (classify (fork_result E) st)) ru
                    (wrap64 (TIMESPEC (clock_end E) - TIMESPEC start)))"
    unfolding m using assms(5-14) i c
    by (simp add: supervise_def startup_def Let_def install_sigchld_def unblock_signal_def
       flush_def parent_side_def parent_setup_def block_cleanup_and_chld_def waitpid_def
       sigsuspend_def arrive_def deliver_def run_handler_def chld_def
       disposition_install_cleanup
       reap_loop_zombie report_def dprintf_all_ok [OF d] settimeout_trace
       fd_output_Cons)
  then show ?thesis
    by (simp add: concat_record_chunks)
qed

lemma main_wait_fails:
  assumes "parse_int a1 = Inr fd" and "parse_int a2 = Inr t" and "1 \<le> t" and "t \<le> 60"
    and "fd_open E fd" and "sigprocmask_ok E" and "waitpid_error E"
    and "before_fork E = []" and "before_block E = []" and "after_reap E = []"
    and "clock_start E = Some start" and "0 < fork_result E"
    and "getrusage_result E = Some ru" and "\<forall>i<15. dprintf_ok E i"
  shows "fst (main E [a0, a1, a2]) = Return 0 \<and>
     fd_output fd (trace (snd (main E [a0, a1, a2]))) =
       json_line (record_fields 0 ''unknown'' (- 1) ru
                    (wrap64 (TIMESPEC (clock_end E) - TIMESPEC start)))"
proof -
  have d: "\<forall>i<length (record_chunks f ty v ru real). dprintf_ok E (0 + i)" for f ty v real
    using assms by simp
  have m: "main E [a0, a1, a2] =
      supervise E fd (emit (Fcntl_getfd fd) ((init_proc E)\<lparr>timeout_secs := t\<rparr>))"
    using assms by (simp add: main_def Let_def MAX_TIMEOUT_SECS_def)
  have i: "foreground (init_proc E) = False" "term_signal (init_proc E) = SIGKILL"
    "pending (init_proc E) = []" "trace (init_proc E) = []" "timed_out (init_proc E) = 0"
    by (simp_all add: init_proc_def)
  have c: "catchable SIGALRM" "catchable SIGCHLD" "catchable SIGUSR1" "catchable SIGTTIN"
    "catchable SIGTTOU" "SIGALRM \<noteq> SIGCHLD" "SIGALRM \<noteq> SIGUSR1" "SIGALRM \<noteq> SIGTTIN"
    "SIGALRM \<noteq> SIGTTOU" "SIGCHLD \<noteq> SIGUSR1" "SIGCHLD \<noteq> SIGTTIN" "SIGCHLD \<noteq> SIGTTOU"
    by (simp_all add: catchable_def signal_numbers)
  have w: "reap_loop E cs rs s0 p = (None, (- 1, s0), emit (Waitpid (monitored_pid p) (- 1)) p)"
    for cs rs s0 p
    using assms(7) by (cases rs) (simp_all add: waitpid_def)
  have r: "fst (main E [a0, a1, a2]) = Return 0 \<and>
     fd_output fd (trace (snd (main E [a0, a1, a2]))) =
       concat (record_chunks 0 ''unknown'' (- 1) ru
                    (wrap64 (TIMESPEC (clock_end E) - TIMESPEC start)))"
    unfolding m using assms(5-14) i c
    by (simp add: supervise_def startup_def Let_def install_sigchld_def unblock_signal_def
       flush_def parent_side_def parent_setup_def block_cleanup_and_chld_def w
       report_def dprintf_all_ok [OF d] settimeout_trace classify_def
       fd_output_Cons)
  then show ?thesis
    by (simp add: concat_record_chunks)
qed

lemma env_core_dump_simps:
  "fd_open env_core_dump 5" "sigprocmask_ok env_core_dump" "\<not> waitpid_error env_core_dump"
  "before_fork env_core_dump = []" "before_block env_core_dump = []"
  "after_reap env_core_dump = []"
  "clock_start env_core_dump = Some \<lparr>tv_sec = 0, tv_nsec = 5\<rparr>"
  "clock_end env_core_dump = \<lparr>tv_sec = 0, tv_nsec = 1505\<rparr>"
  "fork_result env_core_dump = 4242"
  "rounds env_core_dump = \<lparr>gap = [], susp = [Child_exits (WSignaled 11 True)]\<rparr> # []"
  "getrusage_result env_core_dump = Some rusage0" "dprintf_ok env_core_dump i"
  by (simp_all add: env_core_dump_def env0_def)

lemma env_wait_fails_simps:
  "fd_open env_wait_fails 5" "sigprocmask_ok env_wait_fails" "waitpid_error env_wait_fails"
  "before_fork env_wait_fails = []" "before_block env_wait_fails = []"
  "after_reap env_wait_fails = []"
  "clock_start env_wait_fails = Some \<lparr>tv_sec = 0, tv_nsec = 5\<rparr>"
  "clock_end env_wait_fails = \<lparr>tv_sec = 0, tv_nsec = 1505\<rparr>"
  "fork_result env_wait_fails = 4242"
  "getrusage_result env_wait_fails = Some rusage0" "dprintf_ok env_wait_fails i"
  by (simp_all add: env_wait_fails_def env0_def)

text \<open>
  Claim C2.  After a successful wait, a normal exit is classified \<open>exited\<close> with the exit
  code, a termination by signal \<open>core_dump\<close> or \<open>killed\<close> with the signal, depending
  on the core-dump flag.  A failed wait (negative result) and a status of any other
  shape give \<open>unknown\<close> with value -1.  In every case, also the anomalous ones, the
  report goes on: when \<^verbatim>\<open>getrusage\<close> and the fifteen \<^verbatim>\<open>dprintf\<close> calls succeed,
  \<^verbatim>\<open>main\<close> returns 0 and what reached the descriptor is the record line whose
  \<open>status_type\<close> field is that type in double quotes and whose \<open>status_value\<close> field is
  that value in decimal notation.  This holds for \<open>report\<close> from every state, and for
  the whole of \<^verbatim>\<open>main\<close> when the child terminates on its own with any status while
  the supervisor is suspended, and when \<^verbatim>\<open>waitpid\<close> fails.
\<close>

theorem status_classification:
  "(0 \<le> w \<longrightarrow> classify w (WExited c) = (''exited'', c)) \<and>
   (0 \<le> w \<longrightarrow> classify w (WSignaled sg True) = (''core_dump'', sg)) \<and>
   (0 \<le> w \<longrightarrow> classify w (WSignaled sg False) = (''killed'', sg)) \<and>
   (w < 0 \<or> (\<not> WIFEXITED st \<and> \<not> WIFSIGNALED st) \<longrightarrow> classify w st = (''unknown'', -1)) \<and>
   (getrusage_result E = Some ru \<and> (\<forall>i<15. dprintf_ok E i)
      \<longrightarrow> fst (report E fd start w st p) = Return 0 \<and>
          new_events p (snd (report E fd start w st p)) =
            [Clock_gettime] @
            (if w < 0 then [Perror ''error waiting for command''] else []) @
            [Getrusage] @
            map (Dprintf fd)
              (record_chunks (timed_out p) (fst (classify w st)) (snd (classify w st)) ru
                 (wrap64 (TIMESPEC (clock_end E) - TIMESPEC start))) \<and>
          fd_output fd (new_events p (snd (report E fd start w st p))) =
            json_line
              (record_fields (timed_out p) (fst (classify w st)) (snd (classify w st)) ru
                 (wrap64 (TIMESPEC (clock_end E) - TIMESPEC start)))) \<and>
   map_of (record_fields f ty v ru real) ''status_type'' = Some (quoted ty) \<and>
   map_of (record_fields f ty v ru real) ''status_value'' = Some (show_int v) \<and>
   decimal_of v (show_int v) \<and>
   (parse_int a1 = Inr fd \<and> parse_int a2 = Inr t \<and> 1 \<le> t \<and> t \<le> 60 \<and> fd_open E fd \<and>
    sigprocmask_ok E \<and> before_fork E = [] \<and> before_block E = [] \<and> after_reap E = [] \<and>
    clock_start E = Some start \<and> 0 < fork_result E \<and> getrusage_result E = Some ru \<and>
    (\<forall>i<15. dprintf_ok E i)
      \<longrightarrow> (\<not> waitpid_error E \<and> rounds E = \<lparr>gap = [], susp = [Child_exits st]\<rparr> # rest
            \<longrightarrow> fst (main E [a0, a1, a2]) = Return 0 \<and>
                fd_output fd (trace (snd (main E [a0, a1, a2]))) =
                  json_line
                    (record_fields 0 (fst (classify (fork_result E) st))
                       (snd (classify (fork_result E) st)) ru
                       (wrap64 (TIMESPEC (clock_end E) - TIMESPEC start)))) \<and>
          (waitpid_error E
            \<longrightarrow> fst (main E [a0, a1, a2]) = Return 0 \<and>
                fd_output fd (trace (snd (main E [a0, a1, a2]))) =
                  json_line
                    (record_fields 0 ''unknown'' (- 1) ru
                       (wrap64 (TIMESPEC (clock_end E) - TIMESPEC start)))))"
proof -
  have c: "classify w st = (''unknown'', -1)"
    if "w < 0 \<or> (\<not> WIFEXITED st \<and> \<not> WIFSIGNALED st)"
    using that by (auto simp: classify_def)
  have r: "fst (report E fd start w st p) = Return 0 \<and>
          new_events p (snd (report E fd start w st p)) =
            [Clock_gettime] @
            (if w < 0 then [Perror ''error waiting for command''] else []) @
            [Getrusage] @
            map (Dprintf fd)
              (record_chunks (timed_out p) (fst (classify w st)) (snd (classify w st)) ru
                 (wrap64 (TIMESPEC (clock_end E) - TIMESPEC start))) \<and>
          fd_output fd (new_events p (snd (report E fd start w st p))) =
            json_line
              (record_fields (timed_out p) (fst (classify w st)) (snd (classify w st)) ru
                 (wrap64 (TIMESPEC (clock_end E) - TIMESPEC start)))"
    if h: "getrusage_result E = Some ru \<and> (\<forall>i<15. dprintf_ok E i)"
  proof -
    from h have "\<forall>i<length (record_chunks f ty v ru real). dprintf_ok E (0 + i)" for f ty v real
      by simp
    from dprintf_all_ok [OF this] h show ?thesis
      by (simp add: report_def Let_def new_events_def fd_output_Cons concat_record_chunks)
  qed
  have m: "map_of (record_fields f ty v ru real) ''status_type'' = Some (quoted ty) \<and>
     map_of (record_fields f ty v ru real) ''status_value'' = Some (show_int v)"
    by (simp add: record_fields_def)
  have e1: "fst (main E [a0, a1, a2]) = Return 0 \<and>
                fd_output fd (trace (snd (main E [a0, a1, a2]))) =
                  json_line
                    (record_fields 0 (fst (classify (fork_result E) st))
                       (snd (classify (fork_result E) st)) ru
                       (wrap64 (TIMESPEC (clock_end E) - TIMESPEC start)))"
    if "parse_int a1 = Inr fd \<and> parse_int a2 = Inr t \<and> 1 \<le> t \<and> t \<le> 60 \<and> fd_open E fd \<and>
    sigprocmask_ok E \<and> before_fork E = [] \<and> before_block E = [] \<and> after_reap E = [] \<and>
    clock_start E = Some start \<and> 0 < fork_result E \<and> getrusage_result E = Some ru \<and>
    (\<forall>i<15. dprintf_ok E i)"
      and "\<not> waitpid_error E \<and> rounds E = \<lparr>gap = [], susp = [Child_exits st]\<rparr> # rest"
    using that main_child_exits [of a1 fd a2 t E start st rest ru a0] by simp
  have e2: "fst (main E [a0, a1, a2]) = Return 0 \<and>
                fd_output fd (trace (snd (main E [a0, a1, a2]))) =
                  json_line
                    (record_fields 0 ''unknown'' (- 1) ru
                       (wrap64 (TIMESPEC (clock_end E) - TIMESPEC start)))"
    if "parse_int a1 = Inr fd \<and> parse_int a2 = Inr t \<and> 1 \<le> t \<and> t \<le> 60 \<and> fd_open E fd \<and>
    sigprocmask_ok E \<and> before_fork E = [] \<and> before_block E = [] \<and> after_reap E = [] \<and>
    clock_start E = Some start \<and> 0 < fork_result E \<and> getrusage_result E = Some ru \<and>
    (\<forall>i<15. dprintf_ok E i)"
      and "waitpid_error E"
    using that main_wait_fails [of a1 fd a2 t E start ru a0] by simp
  have k: "(0 \<le> w \<longrightarrow> classify w (WExited c) = (''exited'', c)) \<and>
   (0 \<le> w \<longrightarrow> classify w (WSignaled sg True) = (''core_dump'', sg)) \<and>
   (0 \<le> w \<longrightarrow> classify w (WSignaled sg False) = (''killed'', sg))"
    by (simp add: classify_def)
  from k c r m e1 e2 decimal_of_show_int [of v] show ?thesis
    by blast
qed

text \<open>
  The classification at an exit code, at a fault signal with and without core dump, and
  at a failed wait; the lines written by \<open>report\<close> after a failed wait, by the run of
  \<open>env_core_dump\<close> and by the run of \<open>env_wait_fails\<close>.
\<close>

theorem status_classification_witness:
  \<open>(0::int) \<le> 4242 \<and> classify 4242 (WExited 3) = (''exited'', 3) \<and>
   classify 4242 (WSignaled 11 True) = (''core_dump'', 11) \<and>
   classify 4242 (WSignaled 11 False) = (''killed'', 11) \<and>
   (-1::int) < 0 \<and> classify (-1) WContinued = (''unknown'', -1) \<and>
   getrusage_result env0 = Some rusage0 \<and>
   fst (report env0 5 \<lparr>tv_sec = 0, tv_nsec = 5\<rparr> (-1) WContinued (init_proc env0)) = Return 0 \<and>
   fd_output 5 (new_events (init_proc env0)
       (snd (report env0 5 \<lparr>tv_sec = 0, tv_nsec = 5\<rparr> (-1) WContinued (init_proc env0)))) =
     ''{"timed_out":false,"status_type":"unknown","status_value":-1,"user":1000,"kernel":2000,"real":1500,"max_mem":1024,"major_page_faults":0,"minor_page_faults":77,"input_ops":0,"output_ops":8,"waits":3,"preemptions":1}\<newline>'' \<and>
   rounds env_core_dump = [\<lparr>gap = [], susp = [Child_exits (WSignaled 11 True)]\<rparr>] \<and>
   fst (main env_core_dump [''wrapper'', ''5'', ''1'']) = Return 0 \<and>
   fd_output 5 (trace (snd (main env_core_dump [''wrapper'', ''5'', ''1'']))) =
     ''{"timed_out":false,"status_type":"core_dump","status_value":11,"user":1000,"kernel":2000,"real":1500,"max_mem":1024,"major_page_faults":0,"minor_page_faults":77,"input_ops":0,"output_ops":8,"waits":3,"preemptions":1}\<newline>'' \<and>
   waitpid_error env_wait_fails \<and>
   fst (main env_wait_fails [''wrapper'', ''5'', ''1'']) = Return 0 \<and>
   fd_output 5 (trace (snd (main env_wait_fails [''wrapper'', ''5'', ''1'']))) =
     ''{"timed_out":false,"status_type":"unknown","status_value":-1,"user":1000,"kernel":2000,"real":1500,"max_mem":1024,"major_page_faults":0,"minor_page_faults":77,"input_ops":0,"output_ops":8,"waits":3,"preemptions":1}\<newline>''\<close>
proof -
  have g: "getrusage_result env0 = Some rusage0 \<and> (\<forall>i<15. dprintf_ok env0 i)"
    by (simp add: env0_def)
  have r: "wrap64 (TIMESPEC (clock_end env0) - TIMESPEC \<lparr>tv_sec = 0, tv_nsec = 5\<rparr>) = 1500"
    by (simp add: env0_def TIMESPEC_def wrap64_def)
  have t: "timed_out (init_proc env0) = 0"
    by (simp add: init_proc_def)
  have l1: \<open>json_line (record_fields 0 ''unknown'' (- 1) rusage0 1500) =
     ''{"timed_out":false,"status_type":"unknown","status_value":-1,"user":1000,"kernel":2000,"real":1500,"max_mem":1024,"major_page_faults":0,"minor_page_faults":77,"input_ops":0,"output_ops":8,"waits":3,"preemptions":1}\<newline>''\<close>
    by (simp add: render)
  have l2: \<open>json_line (record_fields 0 ''core_dump'' 11 rusage0 1500) =
     ''{"timed_out":false,"status_type":"core_dump","status_value":11,"user":1000,"kernel":2000,"real":1500,"max_mem":1024,"major_page_faults":0,"minor_page_faults":77,"input_ops":0,"output_ops":8,"waits":3,"preemptions":1}\<newline>''\<close>
    by (simp add: render)
  have a: "classify 4242 (WExited 3) = (''exited'', 3) \<and>
      classify 4242 (WSignaled 11 True) = (''core_dump'', 11) \<and>
      classify 4242 (WSignaled 11 False) = (''killed'', 11)"
    using status_classification [where w = 4242 and c = 3 and sg = 11]
    by simp
  note s = status_classification [where w = "-1" and st = WContinued and E = env0
        and ru = rusage0 and fd = 5 and start = "\<lparr>tv_sec = 0, tv_nsec = 5\<rparr>"
        and p = "init_proc env0"]
  have n: "(-1::int) < 0" by simp
  from s n have b1: "classify (-1) WContinued = (''unknown'', -1)"
    by blast
  from s g have b2: "fst (report env0 5 \<lparr>tv_sec = 0, tv_nsec = 5\<rparr> (-1) WContinued (init_proc env0)) = Return 0 \<and>
     fd_output 5 (new_events (init_proc env0)
       (snd (report env0 5 \<lparr>tv_sec = 0, tv_nsec = 5\<rparr> (-1) WContinued (init_proc env0)))) =
     json_line (record_fields (timed_out (init_proc env0)) (fst (classify (-1) WContinued))
        (snd (classify (-1) WContinued)) rusage0
        (wrap64 (TIMESPEC (clock_end env0) - TIMESPEC \<lparr>tv_sec = 0, tv_nsec = 5\<rparr>)))"
    by blast
  have b: "classify (-1) WContinued = (''unknown'', -1) \<and>
     fst (report env0 5 \<lparr>tv_sec = 0, tv_nsec = 5\<rparr> (-1) WContinued (init_proc env0)) = Return 0 \<and>
     fd_output 5 (new_events (init_proc env0)
       (snd (report env0 5 \<lparr>tv_sec = 0, tv_nsec = 5\<rparr> (-1) WContinued (init_proc env0)))) =
     json_line (record_fields 0 ''unknown'' (- 1) rusage0 1500)"
    using b2 by (simp add: b1 r t)
  have h1: "parse_int ''5'' = Inr 5 \<and> parse_int ''1'' = Inr 1 \<and> (1::int) \<le> 1 \<and> (1::int) \<le> 60 \<and>
    fd_open env_core_dump 5 \<and>
    sigprocmask_ok env_core_dump \<and> before_fork env_core_dump = [] \<and>
    before_block env_core_dump = [] \<and> after_reap env_core_dump = [] \<and>
    clock_start env_core_dump = Some \<lparr>tv_sec = 0, tv_nsec = 5\<rparr> \<and> 0 < fork_result env_core_dump \<and>
    getrusage_result env_core_dump = Some rusage0 \<and>
    (\<forall>i<15. dprintf_ok env_core_dump i)"
    by (simp add: env_core_dump_simps parse_args0)
  have cl: "classify 4242 (WSignaled 11 True) = (''core_dump'', 11)"
    by (simp add: classify_def)
  have c1: "fst (main env_core_dump [''wrapper'', ''5'', ''1'']) = Return 0 \<and>
     fd_output 5 (trace (snd (main env_core_dump [''wrapper'', ''5'', ''1'']))) =
       json_line (record_fields 0 ''core_dump'' 11 rusage0 1500)"
    using h1 env_core_dump_simps(3) env_core_dump_simps(10)
      status_classification [where E = env_core_dump and ?a0.0 = "''wrapper''"
        and ?a1.0 = "''5''" and ?a2.0 = "''1''" and fd = 5 and t = 1
        and start = "\<lparr>tv_sec = 0, tv_nsec = 5\<rparr>" and ru = rusage0
        and st = "WSignaled 11 True" and rest = "[]"]
    by (simp add: env_core_dump_simps real_env0 cl)
  have h2: "parse_int ''5'' = Inr 5 \<and> parse_int ''1'' = Inr 1 \<and> (1::int) \<le> 1 \<and> (1::int) \<le> 60 \<and>
    fd_open env_wait_fails 5 \<and>
    sigprocmask_ok env_wait_fails \<and> before_fork env_wait_fails = [] \<and>
    before_block env_wait_fails = [] \<and> after_reap env_wait_fails = [] \<and>
    clock_start env_wait_fails = Some \<lparr>tv_sec = 0, tv_nsec = 5\<rparr> \<and> 0 < fork_result env_wait_fails \<and>
    getrusage_result env_wait_fails = Some rusage0 \<and>
    (\<forall>i<15. dprintf_ok env_wait_fails i)"
    by (simp add: env_wait_fails_simps parse_args0)
  have c2: "fst (main env_wait_fails [''wrapper'', ''5'', ''1'']) = Return 0 \<and>
     fd_output 5 (trace (snd (main env_wait_fails [''wrapper'', ''5'', ''1'']))) =
       json_line (record_fields 0 ''unknown'' (- 1) rusage0 1500)"
    using h2 env_wait_fails_simps(3)
      status_classification [where E = env_wait_fails and ?a0.0 = "''wrapper''"
        and ?a1.0 = "''5''" and ?a2.0 = "''1''" and fd = 5 and t = 1
        and start = "\<lparr>tv_sec = 0, tv_nsec = 5\<rparr>" and ru = rusage0]
    by (simp add: env_wait_fails_simps real_env0)
  from a b c1 c2 g show ?thesis
    by (simp add: l1 l2 env_core_dump_simps env_wait_fails_simps)
qed

section \<open>Arguments that the validation lets through\<close>

text \<open>
  Claim C3.  \<open>validation_rejections\<close> shows what \<^verbatim>\<open>main\<close> rejects; two invocations
  get past it.  The timeout argument \<open>4294967297\<close> is numeric and outside \<open>[1, 60]\<close>,
  but \<open>parse_int\<close> wraps around in 32 bits and returns 1 for it: the run forks the
  child, kills it after the deadline and writes a record, as for the timeout \<open>1\<close>.
  And with descriptor 7 not open, \<^verbatim>\<open>main\<close> returns \<^verbatim>\<open>errno\<close> only after \<^verbatim>\<open>perror\<close>
  has run: when \<^verbatim>\<open>perror\<close> itself fails inside, the status is the error code of that
  failure (\<^verbatim>\<open>EINVAL\<close>, 22), not the one of the descriptor query (\<^verbatim>\<open>EBADF\<close>, 9).
\<close>

theorem validation_gaps:
  \<open>numeric ''4294967297'' \<and> parse_int ''4294967297'' = Inr 1 \<and>
   fst (main env0 [''wrapper'', ''5'', ''4294967297'']) = Return 0 \<and>
   filter is_fork (trace (snd (main env0 [''wrapper'', ''5'', ''4294967297'']))) = [Fork 4242] \<and>
   fd_output 5 (trace (snd (main env0 [''wrapper'', ''5'', ''4294967297'']))) =
     ''{"timed_out":true,"status_type":"killed","status_value":9,"user":1000,"kernel":2000,"real":1500,"max_mem":1024,"major_page_faults":0,"minor_page_faults":77,"input_ops":0,"output_ops":8,"waits":3,"preemptions":1}\<newline>'' \<and>
   \<not> fd_open env_perror_fails 7 \<and>
   fst (main env_perror_fails [''wrapper'', ''7'', ''10'']) = Return EINVAL \<and>
   exit_status (Return EINVAL) = Some 22 \<and> EBADF = 9\<close>
proof -
  have n: "numeric ''4294967297''"
    by (simp add: numeric_def is_digit_def char_val_def)
  have p: "parse_int ''4294967297'' = Inr 1"
    by (simp add: parse_int_def char_val_def wrap32_def)
  have e: "main env0 [''wrapper'', ''5'', ''4294967297''] = main env0 [''wrapper'', ''5'', ''1'']"
    by (simp add: main_def p parse_args0)
  have p7: "parse_int ''7'' = Inr 7" and p10: "parse_int ''10'' = Inr 10"
    by (simp_all add: parse_int_def char_val_def wrap32_def)
  have c: "\<not> fd_open env_perror_fails 7" "perror_errno env_perror_fails = EINVAL"
    by (simp_all add: env_perror_fails_def env0_def)
  have r: "fst (main env_perror_fails [''wrapper'', ''7'', ''10'']) = Return EINVAL"
    using c by (simp add: main_def p7 p10 Let_def MAX_TIMEOUT_SECS_def EBADF_def EINVAL_def)
  from n p c r show ?thesis
    by (simp add: e main_env0 main_env0_output render SIGKILL_def EINVAL_def EBADF_def)
qed

section \<open>The deadline\<close>

text \<open>
  Every handler, every delivery and every step of the reap loop keeps the invariant,
  as long as what arrives while the child lives does not end the child.
\<close>

lemma pending_safe_cong: "pending q = pending p \<Longrightarrow> pending_safe E q = pending_safe E p"
  by (simp add: pending_safe_def)

lemma pending_safe_update [simp]:
  "pending_safe E (p\<lparr>handled := h\<rparr>) = pending_safe E p"
  "pending_safe E (p\<lparr>blocked := b\<rparr>) = pending_safe E p"
  "pending_safe E (p\<lparr>preserve_status := ps\<rparr>) = pending_safe E p"
  "pending_safe E (p\<lparr>timed_out := t\<rparr>) = pending_safe E p"
  "pending_safe E (p\<lparr>child := c\<rparr>) = pending_safe E p"
  "pending_safe E (p\<lparr>monitored_pid := m\<rparr>) = pending_safe E p"
  "pending_safe E (p\<lparr>pending := []\<rparr>)"
  "pending_safe E (p\<lparr>pending := pending p @ [s]\<rparr>) =
     (pending_safe E p \<and> \<not> ends_child E (Sig (fst s) (snd s)))"
  by (auto simp: pending_safe_def)

lemma pending_safe_emit [simp]: "pending_safe E (emit e p) = pending_safe E p"
  by (rule pending_safe_cong) simp

lemma evolves_refl: "deadline_inv E p \<Longrightarrow> evolves E p p"
  by (simp add: evolves_def)

lemma evolves_trans: "evolves E p q \<Longrightarrow> evolves E q r \<Longrightarrow> evolves E p r"
  by (auto simp: evolves_def)

lemma evolves_inv: "evolves E p q \<Longrightarrow> deadline_inv E q"
  by (simp add: evolves_def)

lemma evolves_alive: "evolves E p q \<Longrightarrow> alive q \<Longrightarrow> alive p"
  by (auto simp: evolves_def alive_def)

lemma inv_keep:
  assumes "deadline_inv E p" and "term_signal q = term_signal p"
    and "disposition q = disposition p" and "child q = child p"
    and "monitored_pid q = monitored_pid p" and "timed_out q = timed_out p"
    and "pending q = pending p" and "\<exists>evs. trace q = trace p @ evs"
  shows "deadline_inv E q"
  using assms pending_safe_cong [of q p E] by (auto simp: deadline_inv_def)

lemma evolves_keep:
  assumes "deadline_inv E p" and "term_signal q = term_signal p"
    and "disposition q = disposition p" and "child q = child p"
    and "monitored_pid q = monitored_pid p" and "timed_out q = timed_out p"
    and "pending q = pending p" and "\<exists>evs. trace q = trace p @ evs"
    and "timeout_secs q = timeout_secs p"
  shows "evolves E p q"
  using inv_keep [OF assms(1-8)] assms by (simp add: evolves_def)

lemma evolves_from_update:
  "evolves E (p\<lparr>handled := h\<rparr>) q = evolves E p q"
  "evolves E (p\<lparr>blocked := b\<rparr>) q = evolves E p q"
  by (simp_all add: evolves_def)

lemma inv_update [simp]:
  "deadline_inv E (p\<lparr>handled := h\<rparr>) = deadline_inv E p"
  "deadline_inv E (p\<lparr>blocked := b\<rparr>) = deadline_inv E p"
  "deadline_inv E (p\<lparr>preserve_status := ps\<rparr>) = deadline_inv E p"
  by (simp_all add: deadline_inv_def)

lemma evolves_to_update:
  "evolves E p (q\<lparr>blocked := b\<rparr>) = evolves E p q"
  "evolves E p (q\<lparr>handled := h\<rparr>) = evolves E p q"
  by (simp_all add: evolves_def)

lemma evolves_emit: "deadline_inv E p \<Longrightarrow> evolves E p (emit e p)"
  by (rule evolves_keep) simp_all

lemma evolves_perror: "deadline_inv E p \<Longrightarrow> evolves E p (perror s p)"
  by (rule evolves_keep) simp_all

lemma kill_harmless:
  assumes "deadline_inv E p" and "child p = Running \<longrightarrow> child_after_signal E sig = None"
  shows "evolves E p (kill E pid sig p)"
proof -
  have "kill E pid sig p = emit (Kill pid sig) p \<or> child p = Running \<and> child_after_signal E sig \<noteq> None"
    by (auto simp: kill_def Let_def split: option.splits)
  with assms evolves_emit [OF assms(1)] show ?thesis by auto
qed

lemma kill_deadline:
  assumes "deadline_inv E p" and "child p = Running"
  shows "evolves E p (kill E (monitored_pid p) SIGKILL (p\<lparr>timed_out := 1\<rparr>))"
  using assms
  by (simp add: evolves_def deadline_inv_def kill_def Let_def child_after_signal_def emit_def)

lemma cleanup_evolves:
  assumes "deadline_inv E p" and "s \<in> {SIGALRM, SIGINT, SIGQUIT, SIGHUP, SIGTERM}"
    and "alive p \<longrightarrow> \<not> ends_child E (Sig s x)"
    and "cleanup E s p = (None, p')"
  shows "evolves E p p'"
proof (cases "s = SIGALRM")
  case True
  show ?thesis
  proof (cases "child p")
    case No_child
    with assms True show ?thesis
      by (simp add: cleanup_def Let_def deadline_inv_def)
  next
    case Running
    with assms True have "p' = kill E (monitored_pid p) SIGKILL (p\<lparr>timed_out := 1\<rparr>)"
      by (auto simp: cleanup_def Let_def send_sig_def deadline_inv_def split: if_splits)
    with kill_deadline [OF assms(1) Running] show ?thesis by simp
  next
    case (Zombie st)
    with assms True have p': "p' = kill E (monitored_pid p) SIGKILL (p\<lparr>timed_out := 1\<rparr>)"
      and i: "deadline_inv E (p\<lparr>timed_out := 1\<rparr>)"
      by (auto simp: cleanup_def Let_def send_sig_def deadline_inv_def split: if_splits)
    from Zombie have "evolves E (p\<lparr>timed_out := 1\<rparr>) (kill E (monitored_pid p) SIGKILL (p\<lparr>timed_out := 1\<rparr>))"
      by (intro kill_harmless [OF i]) simp
    with p' show ?thesis by (simp add: evolves_def)
  next
    case Reaped
    with assms True have p': "p' = kill E (monitored_pid p) SIGKILL (p\<lparr>timed_out := 1\<rparr>)"
      and i: "deadline_inv E (p\<lparr>timed_out := 1\<rparr>)"
      by (auto simp: cleanup_def Let_def send_sig_def deadline_inv_def split: if_splits)
    from Reaped have "evolves E (p\<lparr>timed_out := 1\<rparr>) (kill E (monitored_pid p) SIGKILL (p\<lparr>timed_out := 1\<rparr>))"
      by (intro kill_harmless [OF i]) simp
    with p' show ?thesis by (simp add: evolves_def)
  qed
next
  case False
  with assms(2) have u: "s \<noteq> SIGUSR1"
    by (auto simp: signal_numbers)
  from False assms have p': "p' = kill E (monitored_pid p) s p"
    by (auto simp: cleanup_def Let_def send_sig_def split: if_splits)
  from assms(2,3) False u have "child p = Running \<longrightarrow> child_after_signal E s = None"
    by (auto simp: alive_def)
  from kill_harmless [OF assms(1) this] p' show ?thesis by simp
qed

lemma handle_usr1_evolves:
  assumes "deadline_inv E p" and "alive p \<longrightarrow> \<not> ends_child E (Sig s x)"
    and "handle_usr1 E s x p = (None, p')"
  shows "evolves E p p'"
proof -
  from assms(3) have s: "s = SIGUSR1" and p': "p' = kill E (monitored_pid p) x p"
    by (auto simp: handle_usr1_def split: if_splits)
  from assms(2) s have "child p = Running \<longrightarrow> child_after_signal E x = None"
    by (simp add: alive_def)
  from kill_harmless [OF assms(1) this] p' show ?thesis by simp
qed

lemma run_handler_evolves:
  assumes "deadline_inv E p" and "alive p \<longrightarrow> \<not> ends_child E (Sig s x)"
    and "run_handler E s x p = (None, p')"
  shows "evolves E p p'"
proof (cases "disposition p s")
  case SIG_DFL
  with assms show ?thesis
    by (auto simp: run_handler_def evolves_refl split: if_splits)
next
  case SIG_IGN
  with assms show ?thesis
    by (auto simp: run_handler_def evolves_refl)
next
  case H_cleanup
  with assms(1) have m: "s \<in> {SIGALRM, SIGINT, SIGQUIT, SIGHUP, SIGTERM}"
    by (simp add: deadline_inv_def)
  let ?q = "p\<lparr>handled := Suc (handled p)\<rparr>"
  from assms(1) have i: "deadline_inv E ?q" by simp
  from assms(2) have a: "alive ?q \<longrightarrow> \<not> ends_child E (Sig s x)"
    by (simp add: alive_def)
  from assms(3) H_cleanup have "cleanup E s ?q = (None, p')"
    by (simp add: run_handler_def)
  from cleanup_evolves [OF i m a this] show ?thesis
    by (simp add: evolves_from_update)
next
  case H_chld
  with assms show ?thesis
    by (auto simp: run_handler_def chld_def evolves_to_update evolves_refl)
next
  case H_handle_usr1
  let ?q = "p\<lparr>handled := Suc (handled p)\<rparr>"
  from assms(1) have i: "deadline_inv E ?q" by simp
  from assms(2) have a: "alive ?q \<longrightarrow> \<not> ends_child E (Sig s x)"
    by (simp add: alive_def)
  from assms(3) H_handle_usr1 have "handle_usr1 E s x ?q = (None, p')"
    by (simp add: run_handler_def)
  from handle_usr1_evolves [OF i a this] show ?thesis
    by (simp add: evolves_from_update)
qed

lemma deliver_evolves:
  assumes "deadline_inv E p" and "alive p \<longrightarrow> \<not> ends_child E (Sig (fst s) (snd s))"
    and "deliver E s p = (None, p')"
  shows "evolves E p p'"
proof (cases "fst s \<in> blocked p")
  case True
  with assms(3) have p': "p' = p\<lparr>pending := pending p @ [s]\<rparr>"
    by (simp add: deliver_def)
  from assms(1,2) show ?thesis
    unfolding p'
    by (auto simp: evolves_def deadline_inv_def alive_def)
next
  case False
  with assms(3) have "run_handler E (fst s) (snd s) p = (None, p')"
    by (simp add: deliver_def)
  from run_handler_evolves [OF assms(1,2) this] show ?thesis .
qed

lemma flush_list_evolves:
  assumes "deadline_inv E p"
    and "alive p \<longrightarrow> list_all (\<lambda>s. \<not> ends_child E (Sig (fst s) (snd s))) ss"
    and "flush_list E ss p = (None, p')"
  shows "evolves E p p'"
  using assms
proof (induction ss arbitrary: p)
  case Nil
  then show ?case by (simp add: evolves_refl)
next
  case (Cons s ss)
  obtain o1 p1 where d: "deliver E s p = (o1, p1)" by (cases "deliver E s p")
  with Cons.prems(3) have o1: "o1 = None" and f: "flush_list E ss p1 = (None, p')"
    by (cases o1; simp add: and_then_def)+
  from Cons.prems(2) have "alive p \<longrightarrow> \<not> ends_child E (Sig (fst s) (snd s))" by simp
  from deliver_evolves [OF Cons.prems(1) this] d o1 have e: "evolves E p p1" by simp
  from Cons.prems(2) evolves_alive [OF e]
  have "alive p1 \<longrightarrow> list_all (\<lambda>s. \<not> ends_child E (Sig (fst s) (snd s))) ss" by auto
  from Cons.IH [OF evolves_inv [OF e] this f] e show ?case
    by (blast intro: evolves_trans)
qed

lemma flush_evolves:
  assumes "deadline_inv E p" and "flush E p = (None, p')"
  shows "evolves E p p'"
proof -
  let ?q = "p\<lparr>pending := []\<rparr>"
  from assms(1) have i: "deadline_inv E ?q"
    by (auto simp: deadline_inv_def)
  from assms(1) have "alive p \<longrightarrow> pending_safe E p"
    by (auto simp: deadline_inv_def alive_def)
  then have a: "alive ?q \<longrightarrow> list_all (\<lambda>s. \<not> ends_child E (Sig (fst s) (snd s))) (pending p)"
    by (simp add: pending_safe_def alive_def)
  from assms(2) have "flush_list E (pending p) ?q = (None, p')"
    by (simp add: flush_def)
  from flush_list_evolves [OF i a this] assms(1) show ?thesis
    by (simp add: evolves_def)
qed

lemma arrive_evolves:
  assumes "deadline_inv E p" and "alive p \<longrightarrow> \<not> ends_child E a"
    and "arrive E a p = (None, p')"
  shows "evolves E p p'"
proof (cases a)
  case (Sig s x)
  with assms(3) have "deliver E (s, x) p = (None, p')"
    by (simp add: arrive_def)
  with deliver_evolves [OF assms(1), of "(s, x)" p'] assms(2) Sig show ?thesis
    by simp
next
  case (Child_exits st)
  with assms(2) have "child p \<noteq> Running"
    by (auto simp: alive_def)
  with assms(1,3) Child_exits show ?thesis
    by (simp add: arrive_def evolves_refl)
qed

lemma arrive_all_evolves:
  assumes "deadline_inv E p" and "alive p \<longrightarrow> list_all (\<lambda>a. \<not> ends_child E a) as"
    and "arrive_all E as p = (None, p')"
  shows "evolves E p p'"
  using assms
proof (induction as arbitrary: p)
  case Nil
  then show ?case by (simp add: evolves_refl)
next
  case (Cons a as)
  obtain o1 p1 where d: "arrive E a p = (o1, p1)" by (cases "arrive E a p")
  with Cons.prems(3) have o1: "o1 = None" and f: "arrive_all E as p1 = (None, p')"
    by (cases o1; simp add: and_then_def)+
  from Cons.prems(2) have "alive p \<longrightarrow> \<not> ends_child E a" by simp
  from arrive_evolves [OF Cons.prems(1) this] d o1 have e: "evolves E p p1" by simp
  from Cons.prems(2) evolves_alive [OF e]
  have "alive p1 \<longrightarrow> list_all (\<lambda>a. \<not> ends_child E a) as" by auto
  from Cons.IH [OF evolves_inv [OF e] this f] e show ?case
    by (blast intro: evolves_trans)
qed

lemma arrive_until_handled_evolves:
  assumes "deadline_inv E p" and "alive p \<longrightarrow> list_all (\<lambda>a. \<not> ends_child E a) as"
    and "arrive_until_handled E n0 as p = ((None, p'), rest)"
  shows "evolves E p p' \<and> (alive p' \<longrightarrow> list_all (\<lambda>a. \<not> ends_child E a) rest)"
  using assms
proof (induction as arbitrary: p)
  case Nil
  then show ?case by (simp add: evolves_refl)
next
  case (Cons a as)
  show ?case
  proof (cases "n0 < handled p")
    case True
    with Cons.prems show ?thesis by (auto simp: evolves_refl)
  next
    case False
    obtain o1 p1 where d: "arrive E a p = (o1, p1)" by (cases "arrive E a p")
    with Cons.prems(3) False have o1: "o1 = None"
      and f: "arrive_until_handled E n0 as p1 = ((None, p'), rest)"
      by (cases o1; simp)+
    from Cons.prems(2) have "alive p \<longrightarrow> \<not> ends_child E a" by simp
    from arrive_evolves [OF Cons.prems(1) this] d o1 have e: "evolves E p p1" by simp
    from Cons.prems(2) evolves_alive [OF e]
    have "alive p1 \<longrightarrow> list_all (\<lambda>a. \<not> ends_child E a) as" by auto
    from Cons.IH [OF evolves_inv [OF e] this f] e show ?thesis
      by (blast intro: evolves_trans)
  qed
qed

lemma sigsuspend_evolves:
  assumes "deadline_inv E p" and "alive p \<longrightarrow> list_all (\<lambda>a. \<not> ends_child E a) as"
    and "sigsuspend E sigmask as p = (None, p')"
  shows "evolves E p p'"
proof -
  let ?q = "emit Sigsuspend (p\<lparr>blocked := sigmask\<rparr>)"
  have q: "evolves E p ?q"
    using assms(1) by (intro evolves_keep) simp_all
  obtain o1 p1 where f: "flush E ?q = (o1, p1)" by (cases "flush E ?q")
  with assms(3) have o1: "o1 = None" by (cases o1) (simp_all add: sigsuspend_def)
  from flush_evolves [OF evolves_inv [OF q]] f o1 have e1: "evolves E ?q p1" by simp
  with q have e01: "evolves E p p1" by (blast intro: evolves_trans)
  obtain o2 p2 rest where u: "arrive_until_handled E (handled p) as p1 = ((o2, p2), rest)"
    by (cases "arrive_until_handled E (handled p) as p1") auto
  with assms(3) f o1 have o2: "o2 = None" by (cases o2) (simp_all add: sigsuspend_def)
  from assms(2) evolves_alive [OF e01]
  have "alive p1 \<longrightarrow> list_all (\<lambda>a. \<not> ends_child E a) as" by auto
  from arrive_until_handled_evolves [OF evolves_inv [OF e01] this] u o2
  have e2: "evolves E p1 p2" and r: "alive p2 \<longrightarrow> list_all (\<lambda>a. \<not> ends_child E a) rest"
    by simp_all
  from assms(3) f o1 u o2 have a: "arrive_all E rest (p2\<lparr>blocked := blocked p\<rparr>) = (None, p')"
    by (simp add: sigsuspend_def split: if_splits)
  have i: "deadline_inv E (p2\<lparr>blocked := blocked p\<rparr>)"
    using evolves_inv [OF e2] by simp
  from r have "alive (p2\<lparr>blocked := blocked p\<rparr>) \<longrightarrow> list_all (\<lambda>a. \<not> ends_child E a) rest"
    by (simp add: alive_def)
  from arrive_all_evolves [OF i this a] have "evolves E p2 p'"
    by (simp add: evolves_from_update)
  with e01 e2 show ?thesis by (blast intro: evolves_trans)
qed

lemma unblock_signal_evolves:
  assumes "deadline_inv E p" and "unblock_signal E sig p = (None, p')"
  shows "evolves E p p'"
proof (cases "sigprocmask_ok E")
  case True
  let ?q = "emit (Sig_unblock [sig]) (p\<lparr>blocked := blocked p - {sig}\<rparr>)"
  have q: "evolves E p ?q"
    using assms(1) by (intro evolves_keep) simp_all
  from assms(2) True have "flush E ?q = (None, p')"
    by (simp add: unblock_signal_def)
  from flush_evolves [OF evolves_inv [OF q] this] q show ?thesis
    by (blast intro: evolves_trans)
next
  case False
  with assms(2) have "p' = perror ''warning: sigprocmask'' (emit (Sig_unblock [sig]) p)"
    by (simp add: unblock_signal_def)
  with assms(1) show ?thesis
    by (intro evolves_keep) simp_all
qed

lemma sigaction_evolves:
  assumes "deadline_inv E p"
    and "h = H_cleanup \<longrightarrow> sg \<in> {SIGALRM, SIGINT, SIGQUIT, SIGHUP, SIGTERM}"
  shows "evolves E p (snd (sigaction sg h p))"
  using assms
  by (auto simp: evolves_def deadline_inv_def sigaction_def emit_def pending_safe_def)

lemma signal_evolves:
  assumes "deadline_inv E p" and "h \<noteq> H_cleanup"
  shows "evolves E p (signal sg h p)"
  using assms
  by (auto simp: evolves_def deadline_inv_def signal_def emit_def pending_safe_def)

lemma install_cleanup_evolves:
  assumes "deadline_inv E p"
  shows "evolves E p (install_cleanup SIGKILL p)"
proof -
  have c: "\<not> catchable SIGKILL" by (simp add: catchable_def)
  have "disposition (install_cleanup SIGKILL p) s = H_cleanup \<longrightarrow>
      s \<in> {SIGALRM, SIGINT, SIGQUIT, SIGHUP, SIGTERM}" for s
    using assms c by (auto simp: disposition_install_cleanup deadline_inv_def)
  moreover have "pending_safe E (install_cleanup SIGKILL p) = pending_safe E p"
    by (rule pending_safe_cong) simp
  ultimately show ?thesis
    using assms by (auto simp: evolves_def deadline_inv_def)
qed

lemma settimeout_evolves:
  assumes "deadline_inv E p"
  shows "evolves E p (settimeout E warn p)"
  using assms by (intro evolves_keep) (simp_all add: settimeout_trace)

lemma block_evolves:
  assumes "deadline_inv E p"
  shows "evolves E p (snd (block_cleanup_and_chld E sigterm p))"
  using assms
  by (intro evolves_keep) (simp_all add: block_cleanup_and_chld_def Let_def)

lemma startup_evolves:
  assumes "deadline_inv E p" and "term_signal p = SIGKILL"
    and "alive p \<longrightarrow> list_all (\<lambda>a. \<not> ends_child E a) (before_fork E)"
    and "startup E p = (None, p')"
  shows "evolves E p p'"
proof -
  let ?p1 = "p\<lparr>preserve_status := True\<rparr>"
  let ?p2 = "if \<not> foreground ?p1 then emit (Setpgid 0 0) ?p1 else ?p1"
  let ?p3 = "install_cleanup SIGKILL ?p2"
  let ?p4 = "signal SIGTTOU SIG_IGN (signal SIGTTIN SIG_IGN ?p3)"
  let ?p5 = "snd (sigaction SIGCHLD H_chld ?p4)"
  have e2: "evolves E p ?p2"
    using assms(1) by (intro evolves_keep) simp_all
  have e3: "evolves E ?p2 ?p3"
    by (rule install_cleanup_evolves [OF evolves_inv [OF e2]])
  have e4: "evolves E ?p3 ?p4"
    by (blast intro: evolves_trans signal_evolves evolves_inv e3)
  have e5: "evolves E ?p4 ?p5"
    by (rule sigaction_evolves [OF evolves_inv [OF e4]]) simp
  have e05: "evolves E p ?p5"
    using e2 e3 e4 e5 by (blast intro: evolves_trans)
  obtain o6 p6 where u: "unblock_signal E SIGCHLD ?p5 = (o6, p6)"
    by (cases "unblock_signal E SIGCHLD ?p5")
  have s: "startup E p = and_then (unblock_signal E SIGCHLD ?p5) (arrive_all E (before_fork E))"
    using assms(2) by (simp add: startup_def Let_def install_sigchld_def)
  from assms(4) have "and_then (o6, p6) (arrive_all E (before_fork E)) = (None, p')"
    unfolding s u .
  then have o6: "o6 = None" and a: "arrive_all E (before_fork E) p6 = (None, p')"
    by (cases o6; simp add: and_then_def)+
  from unblock_signal_evolves [OF evolves_inv [OF e05]] u o6 have e6: "evolves E ?p5 p6"
    by simp
  with e05 have e06: "evolves E p p6" by (blast intro: evolves_trans)
  from assms(3) evolves_alive [OF e06]
  have "alive p6 \<longrightarrow> list_all (\<lambda>a. \<not> ends_child E a) (before_fork E)" by auto
  from arrive_all_evolves [OF evolves_inv [OF e06] this a] e06 show ?thesis
    by (blast intro: evolves_trans)
qed

lemma parent_setup_evolves:
  assumes "deadline_inv E p"
    and "alive p \<longrightarrow> list_all (\<lambda>a. \<not> ends_child E a) (before_block E)"
    and "parent_setup E p = (None, p')"
  shows "evolves E p p' \<and>
     (Timer_settime (timeout_secs p) \<in> set (trace p') \<or>
      Alarm (to_unsigned (timeout_secs p)) \<in> set (trace p'))"
proof -
  obtain o1 p1 where u: "unblock_signal E SIGALRM p = (o1, p1)"
    by (cases "unblock_signal E SIGALRM p")
  with assms(3) have o1: "o1 = None" by (cases o1) (simp_all add: parent_setup_def)
  from unblock_signal_evolves [OF assms(1)] u o1 have e1: "evolves E p p1" by simp
  let ?r = "sigaction SIGUSR1 H_handle_usr1 p1"
  let ?p2 = "if fst ?r < 0 then perror ''sigaction'' (snd ?r) else snd ?r"
  let ?p3 = "settimeout E True ?p2"
  have e2: "evolves E p1 (snd ?r)"
    by (rule sigaction_evolves [OF evolves_inv [OF e1]]) simp
  have e2': "evolves E (snd ?r) ?p2"
    using evolves_perror [OF evolves_inv [OF e2]] evolves_refl [OF evolves_inv [OF e2]]
    by simp
  have e02: "evolves E p ?p2"
    using e1 e2 e2' by (blast intro: evolves_trans)
  have e3: "evolves E ?p2 ?p3"
    by (rule settimeout_evolves [OF evolves_inv [OF e02]])
  with e02 have e03: "evolves E p ?p3" by (blast intro: evolves_trans)
  from e02 have t: "timeout_secs ?p2 = timeout_secs p" by (simp add: evolves_def)
  have m: "Timer_settime (timeout_secs p) \<in> set (trace ?p3) \<or>
      Alarm (to_unsigned (timeout_secs p)) \<in> set (trace ?p3)"
    unfolding settimeout_trace t by simp
  from assms(3) u o1 have a: "arrive_all E (before_block E) ?p3 = (None, p')"
    by (simp add: parent_setup_def Let_def)
  from assms(2) evolves_alive [OF e03]
  have "alive ?p3 \<longrightarrow> list_all (\<lambda>a. \<not> ends_child E a) (before_block E)" by auto
  from arrive_all_evolves [OF evolves_inv [OF e03] this a] have e4: "evolves E ?p3 p'" .
  then obtain evs where "trace p' = trace ?p3 @ evs" by (auto simp: evolves_def)
  with m have "Timer_settime (timeout_secs p) \<in> set (trace p') \<or>
      Alarm (to_unsigned (timeout_secs p)) \<in> set (trace p')"
    by auto
  with e03 e4 show ?thesis by (blast intro: evolves_trans)
qed

lemma reap_loop_deadline:
  assumes "deadline_inv E p" and "child p = Running \<or> (\<exists>st. child p = Zombie st)"
    and "\<not> waitpid_error E" and "fork_result E \<noteq> 0"
    and "alive p \<longrightarrow> list_all (\<lambda>a. \<not> ends_child E a) (concat (map (\<lambda>r. gap r @ susp r) rs))"
    and "reap_loop E cs rs status p = (None, (w, st), p')"
  shows "w = fork_result E \<and> st = WSignaled SIGKILL False \<and> deadline_inv E p' \<and>
     child p' = Reaped \<and> timeout_secs p' = timeout_secs p \<and> (\<exists>evs. trace p' = trace p @ evs)"
  using assms
proof (induction rs arbitrary: status p)
  case Nil
  from Nil.prems(1,2) have m: "monitored_pid p = fork_result E"
    by (auto simp: deadline_inv_def)
  from Nil.prems(2) show ?case
  proof
    assume "child p = Running"
    with Nil.prems m show ?thesis
      by (simp add: waitpid_def)
  next
    assume "\<exists>st. child p = Zombie st"
    then obtain st0 where z: "child p = Zombie st0" ..
    with Nil.prems m show ?thesis
      by (auto simp: waitpid_def deadline_inv_def)
  qed
next
  case (Cons r rs)
  from Cons.prems(1,2) have m: "monitored_pid p = fork_result E"
    by (auto simp: deadline_inv_def)
  from Cons.prems(2) show ?case
  proof
    assume run: "child p = Running"
    let ?p1 = "emit (Waitpid (fork_result E) 0) p"
    have e1: "evolves E p ?p1"
      by (rule evolves_emit [OF Cons.prems(1)])
    from run m Cons.prems(3) have w: "waitpid E (monitored_pid p) status p = (0, status, ?p1)"
      by (simp add: waitpid_def)
    obtain o2 p2 where a: "arrive_all E (gap r) ?p1 = (o2, p2)"
      by (cases "arrive_all E (gap r) ?p1")
    obtain o3 p3 where s: "and_then (o2, p2) (sigsuspend E cs (susp r)) = (o3, p3)"
      by (cases "and_then (o2, p2) (sigsuspend E cs (susp r))")
    from Cons.prems(6) w a s have o3: "o3 = None"
      and l: "reap_loop E cs rs status p3 = (None, (w, st), p')"
      by (cases o3; simp)+
    from s o3 have o2: "o2 = None" and s': "sigsuspend E cs (susp r) p2 = (None, p3)"
      by (cases o2; simp add: and_then_def)+
    from Cons.prems(5) run have h: "list_all (\<lambda>a. \<not> ends_child E a) (gap r)"
      "list_all (\<lambda>a. \<not> ends_child E a) (susp r)"
      "list_all (\<lambda>a. \<not> ends_child E a) (concat (map (\<lambda>r. gap r @ susp r) rs))"
      by (simp_all add: alive_def)
    from arrive_all_evolves [OF evolves_inv [OF e1] _ a [unfolded o2]] h(1)
    have e2: "evolves E ?p1 p2" by simp
    from sigsuspend_evolves [OF evolves_inv [OF e2] _ s'] h(2)
    have e3: "evolves E p2 p3" by simp
    from e1 e2 e3 have e: "evolves E p p3" by (blast intro: evolves_trans)
    with run have c3: "child p3 = Running \<or> (\<exists>st. child p3 = Zombie st)"
      by (auto simp: evolves_def)
    from Cons.IH [OF evolves_inv [OF e] c3 Cons.prems(3,4) _ l] h(3)
    have "w = fork_result E \<and> st = WSignaled SIGKILL False \<and> deadline_inv E p' \<and>
     child p' = Reaped \<and> timeout_secs p' = timeout_secs p3 \<and> (\<exists>evs. trace p' = trace p3 @ evs)"
      by simp
    with e show ?thesis
      by (auto simp: evolves_def)
  next
    assume "\<exists>st. child p = Zombie st"
    then obtain st0 where z: "child p = Zombie st0" ..
    with Cons.prems m show ?thesis
      by (auto simp: waitpid_def deadline_inv_def)
  qed
qed

lemma init_inv:
  "deadline_inv E (emit (Fcntl_getfd fd) ((init_proc E)\<lparr>timeout_secs := t\<rparr>))"
  by (simp add: deadline_inv_def init_proc_def emit_def pending_safe_def)

lemma main_parent_run:
  assumes "main E argv = (Return 0, p')"
  shows "\<exists>fd t start p5.
     parse_int (argv ! 1) = Inr fd \<and> parse_int (argv ! 2) = Inr t \<and> 1 \<le> t \<and> t \<le> 60 \<and>
     clock_start E = Some start \<and> fork_result E \<noteq> 0 \<and> fork_result E \<noteq> - 1 \<and>
     startup E (emit (Fcntl_getfd fd) ((init_proc E)\<lparr>timeout_secs := t\<rparr>)) = (None, p5) \<and>
     parent_side E fd start
       ((emit (Fork (fork_result E)) (emit Clock_gettime p5))
          \<lparr>monitored_pid := fork_result E, child := Running\<rparr>) = (Return 0, p')"
proof -
  from assms have l: "length argv = 3"
    by (auto simp: main_def Let_def split: if_splits)
  from assms l obtain fd where fd: "parse_int (argv ! 1) = Inr fd"
    by (cases "parse_int (argv ! 1)") (auto simp: main_def Let_def)
  from assms l fd obtain t where t: "parse_int (argv ! 2) = Inr t"
    by (cases "parse_int (argv ! 2)") (auto simp: main_def Let_def)
  let ?q = "emit (Fcntl_getfd fd) ((init_proc E)\<lparr>timeout_secs := t\<rparr>)"
  from assms l fd t have r: "1 \<le> t \<and> t \<le> 60" and s: "supervise E fd ?q = (Return 0, p')"
    by (auto simp: main_def Let_def MAX_TIMEOUT_SECS_def EBADF_def split: if_splits)
  have k: "term_signal ?q = SIGKILL" by (simp add: init_proc_def)
  obtain o5 p5 where u: "startup E ?q = (o5, p5)" by (cases "startup E ?q")
  from startup_cases [OF k u] have n5: "\<forall>n. o5 \<noteq> Some (Return n)" by simp
  with s u have o5: "o5 = None"
    by (cases o5) (auto simp: supervise_def)
  from s u o5 obtain start where c: "clock_start E = Some start"
    by (cases "clock_start E") (auto simp: supervise_def)
  from s u o5 c have f: "fork_result E \<noteq> 0 \<and> fork_result E \<noteq> - 1"
    and ps: "parent_side E fd start
       ((emit (Fork (fork_result E)) (emit Clock_gettime p5))
          \<lparr>monitored_pid := fork_result E, child := Running\<rparr>) = (Return 0, p')"
    by (auto simp: supervise_def Let_def child_side_def split: if_splits)
  from fd t r c f u o5 ps show ?thesis by blast
qed

lemma parent_side_Return0:
  assumes "parent_side E fd start p = (Return 0, p')"
  shows "\<exists>p1 cs p2 w st p3 p4.
     parent_setup E p = (None, p1) \<and>
     block_cleanup_and_chld E (term_signal p1) p1 = (cs, p2) \<and>
     reap_loop E cs (rounds E) (uninit_status E) p2 = (None, (w, st), p3) \<and>
     arrive_all E (after_reap E) p3 = (None, p4) \<and>
     report E fd start w st p4 = (Return 0, p')"
proof -
  obtain o1 p1 where s: "parent_setup E p = (o1, p1)"
    by (cases "parent_setup E p")
  from parent_setup_cases [OF s] have n1: "\<forall>n. o1 \<noteq> Some (Return n)" by simp
  obtain cs p2 where b: "block_cleanup_and_chld E (term_signal p1) p1 = (cs, p2)"
    by (cases "block_cleanup_and_chld E (term_signal p1) p1")
  obtain o3 w st p3 where l: "reap_loop E cs (rounds E) (uninit_status E) p2 = (o3, (w, st), p3)"
    by (cases "reap_loop E cs (rounds E) (uninit_status E) p2") auto
  with quiet_reap_loop [of p2 E cs "rounds E" "uninit_status E"]
  have n3: "\<forall>n. o3 \<noteq> Some (Return n)" by simp
  obtain o4 p4 where a: "arrive_all E (after_reap E) p3 = (o4, p4)"
    by (cases "arrive_all E (after_reap E) p3")
  with quiet_step_arrive_all [of p3 E "after_reap E"]
  have n4: "\<forall>n. o4 \<noteq> Some (Return n)"
    by (simp add: quiet_step_def)
  have res: "(Return 0, p') =
     (case o1 of Some x \<Rightarrow> (x, p1) | None \<Rightarrow>
        (case o3 of Some x \<Rightarrow> (x, p3) | None \<Rightarrow>
           (case o4 of Some x \<Rightarrow> (x, p4) | None \<Rightarrow> report E fd start w st p4)))"
    using assms s b l a by (simp add: parent_side_def split: option.splits)
  from res n1 n3 n4 have o: "o1 = None" "o3 = None" "o4 = None"
    by (auto split: option.splits)
  with res have "report E fd start w st p4 = (Return 0, p')" by simp
  with s b l a o show ?thesis by blast
qed

lemma filter_dprintf_report_prefix [simp]:
  "filter is_dprintf
     ([Clock_gettime] @ (if w < 0 then [Perror s] else []) @ [Getrusage] @ map (Dprintf fd) ss) =
   map (Dprintf fd) ss"
  by simp

lemma main_deadline:
  assumes "main E argv = (Return 0, p')" and "only_deadline_ends_child E"
    and "\<not> waitpid_error E" and "- 1 \<le> fork_result E"
  shows "\<exists>fd t start ru.
     parse_int (argv ! 1) = Inr fd \<and> parse_int (argv ! 2) = Inr t \<and> 1 \<le> t \<and> t \<le> 60 \<and>
     clock_start E = Some start \<and> getrusage_result E = Some ru \<and>
     (Timer_settime t \<in> set (trace p') \<or> Alarm t \<in> set (trace p')) \<and>
     Kill (fork_result E) SIGKILL \<in> set (trace p') \<and>
     Waitpid (fork_result E) (fork_result E) \<in> set (trace p') \<and>
     timed_out p' = 1 \<and>
     fd_output fd (trace p') =
       json_line (record_fields 1 ''killed'' SIGKILL ru
                    (wrap64 (TIMESPEC (clock_end E) - TIMESPEC start)))"
proof -
  from assms(2) have h: "list_all (\<lambda>a. \<not> ends_child E a) (before_fork E)"
    "list_all (\<lambda>a. \<not> ends_child E a) (before_block E)"
    "list_all (\<lambda>a. \<not> ends_child E a) (concat (map (\<lambda>r. gap r @ susp r) (rounds E)))"
    by (simp_all add: only_deadline_ends_child_def)
  from main_parent_run [OF assms(1)] obtain fd t start p5 where
    a: "parse_int (argv ! 1) = Inr fd" "parse_int (argv ! 2) = Inr t" "1 \<le> t" "t \<le> 60"
      "clock_start E = Some start" "fork_result E \<noteq> 0" "fork_result E \<noteq> - 1"
    and su: "startup E (emit (Fcntl_getfd fd) ((init_proc E)\<lparr>timeout_secs := t\<rparr>)) = (None, p5)"
    and ps: "parent_side E fd start
       ((emit (Fork (fork_result E)) (emit Clock_gettime p5))
          \<lparr>monitored_pid := fork_result E, child := Running\<rparr>) = (Return 0, p')"
    by blast
  let ?q = "emit (Fcntl_getfd fd) ((init_proc E)\<lparr>timeout_secs := t\<rparr>)"
  let ?p6 = "(emit (Fork (fork_result E)) (emit Clock_gettime p5))
          \<lparr>monitored_pid := fork_result E, child := Running\<rparr>"
  have k: "term_signal ?q = SIGKILL" by (simp add: init_proc_def)
  have cq: "child ?q = No_child" "timeout_secs ?q = t" by (simp_all add: init_proc_def)
  from startup_evolves [OF init_inv k _ su] h(1) have e5: "evolves E ?q p5" by simp
  with cq have c5: "child p5 = No_child" and t5: "timeout_secs p5 = t"
    and i5: "deadline_inv E p5"
    by (auto simp: evolves_def)
  from i5 c5 have i6: "deadline_inv E ?p6"
    by (simp add: deadline_inv_def)
  have t6: "timeout_secs ?p6 = t" "child ?p6 = Running" using t5 by simp_all
  from parent_side_Return0 [OF ps] obtain p1 cs p2 w st p3 p4 where
    s1: "parent_setup E ?p6 = (None, p1)"
    and s2: "block_cleanup_and_chld E (term_signal p1) p1 = (cs, p2)"
    and s3: "reap_loop E cs (rounds E) (uninit_status E) p2 = (None, (w, st), p3)"
    and s4: "arrive_all E (after_reap E) p3 = (None, p4)"
    and s5: "report E fd start w st p4 = (Return 0, p')"
    by blast
  from parent_setup_evolves [OF i6 _ s1] h(2) t6
  have e1: "evolves E ?p6 p1"
    and arm: "Timer_settime t \<in> set (trace p1) \<or> Alarm (to_unsigned t) \<in> set (trace p1)"
    by simp_all
  from a(3,4) have tu: "to_unsigned t = t" by (simp add: to_unsigned_def)
  from block_evolves [OF evolves_inv [OF e1], of "term_signal p1"] s2
  have e2: "evolves E p1 p2" by simp
  from e1 e2 have e12: "evolves E ?p6 p2" by (blast intro: evolves_trans)
  with t6 have c2: "child p2 = Running \<or> (\<exists>st. child p2 = Zombie st)"
    by (auto simp: evolves_def)
  from reap_loop_deadline [OF evolves_inv [OF e12] c2 assms(3) a(6) _ s3] h(3)
  have r: "w = fork_result E" "st = WSignaled SIGKILL False" "deadline_inv E p3"
    "child p3 = Reaped" "\<exists>evs. trace p3 = trace p2 @ evs"
    by simp_all
  from r(4) have "alive p3 \<longrightarrow> list_all (\<lambda>a. \<not> ends_child E a) (after_reap E)"
    by (simp add: alive_def)
  from arrive_all_evolves [OF r(3) this s4] have e4: "evolves E p3 p4" .
  with r(4) have i4: "timed_out p4 = 1" "Kill (fork_result E) SIGKILL \<in> set (trace p4)"
    "Waitpid (fork_result E) (fork_result E) \<in> set (trace p4)"
    by (auto simp: evolves_def deadline_inv_def)
  from e2 r(5) e4 obtain evs where tr: "trace p4 = trace p1 @ evs"
    by (auto simp: evolves_def)
  from a(6,7) assms(4) have pos: "\<not> fork_result E < 0" by simp
  from r(1,2) pos have cl: "classify w st = (''killed'', SIGKILL)"
    by (simp add: classify_def)
  from report_Return0 [OF s5] obtain ru where ru: "getrusage_result E = Some ru"
    and to: "timed_out p' = timed_out p4"
    and tp: "trace p' = trace p4 @ [Clock_gettime] @
       (if w < 0 then [Perror ''error waiting for command''] else []) @ [Getrusage] @
       map (Dprintf fd)
         (record_chunks (timed_out p4) (fst (classify w st)) (snd (classify w st)) ru
            (wrap64 (TIMESPEC (clock_end E) - TIMESPEC start)))"
    by blast
  let ?chunks = "record_chunks 1 ''killed'' SIGKILL ru
            (wrap64 (TIMESPEC (clock_end E) - TIMESPEC start))"
  from tp cl i4(1) have fp: "filter is_dprintf (trace p') =
      filter is_dprintf (trace p4) @ map (Dprintf fd) ?chunks"
    by simp
  from main_Return0 [OF assms(1)] obtain fd' ch where
    "filter is_dprintf (trace p') = map (Dprintf fd') ch" "length ch = 15"
    by (auto simp: length_record_chunks)
  with fp have "length (filter is_dprintf (trace p4)) + 15 = 15"
    by (metis length_append length_map length_record_chunks)
  then have nd: "filter is_dprintf (trace p4) = []" by simp
  have out: "fd_output fd (trace p') = json_line (record_fields 1 ''killed'' SIGKILL ru
                    (wrap64 (TIMESPEC (clock_end E) - TIMESPEC start)))"
    by (subst fd_output_filter) (simp add: fp nd concat_record_chunks)
  from arm tu tr tp have arm': "Timer_settime t \<in> set (trace p') \<or> Alarm t \<in> set (trace p')"
    by auto
  from i4 tp to have k': "Kill (fork_result E) SIGKILL \<in> set (trace p')"
    "Waitpid (fork_result E) (fork_result E) \<in> set (trace p')" "timed_out p' = 1"
    by simp_all
  from a ru arm' k' out show ?thesis by blast
qed

lemma env_exit_race_simps:
  "fd_open env_exit_race 5" "sigprocmask_ok env_exit_race" "\<not> waitpid_error env_exit_race"
  "before_fork env_exit_race = []" "before_block env_exit_race = []"
  "after_reap env_exit_race = []"
  "clock_start env_exit_race = Some \<lparr>tv_sec = 0, tv_nsec = 5\<rparr>"
  "clock_end env_exit_race = \<lparr>tv_sec = 0, tv_nsec = 1505\<rparr>"
  "fork_result env_exit_race = 4242"
  "rounds env_exit_race = [\<lparr>gap = [Sig SIGALRM 0, Child_exits (WExited 0)], susp = []\<rparr>]"
  "getrusage_result env_exit_race = Some rusage0" "dprintf_ok env_exit_race i"
  "inherited_mask env_exit_race = {}" "uninit_status env_exit_race = WContinued"
  by (simp_all add: env_exit_race_def env0_def)




end
